theory Spec2Isabelle
  imports Complex_Main "HOL-Library.Sublist"
begin

section \<open>JavaScript values used by the search tool\<close>

text \<open>
  An exception value: the \<^verbatim>\<open>name\<close> and the \<^verbatim>\<open>message\<close> of a JavaScript
  \<^verbatim>\<open>Error\<close>. Every promise rejection and every \<^verbatim>\<open>throw\<close> of the
  source is a value of this type on the left of a sum.
\<close>

datatype js_error = JsError (err_name: string) (err_message: string)

definition newError :: "string \<Rightarrow> js_error" where
  "newError msg = JsError ''Error'' msg"

text \<open>Template literals print integers in decimal.\<close>

fun showNat :: "nat \<Rightarrow> string" where
  "showNat n =
     (if n < 10 then [''0123456789'' ! n]
      else showNat (n div 10) @ [''0123456789'' ! (n mod 10)])"

declare showNat.simps [simp del]

definition showInt :: "int \<Rightarrow> string" where
  "showInt i = (if i < 0 then CHR ''-'' # showNat (nat (- i)) else showNat (nat i))"

text \<open>
  Strings are lists of 8-bit characters, so the model covers the Latin-1 part of
  JavaScript's UTF-16 strings. \<open>isWhiteSpace\<close> is the white space and line
  terminator set of \<^verbatim>\<open>String.prototype.trim\<close> and \<^verbatim>\<open>parseInt\<close> in that range:
  TAB, LF, VT, FF, CR, SP and NBSP.
\<close>

definition LF :: char where
  "LF = CHR 0x0A"

definition isWhiteSpace :: "char \<Rightarrow> bool" where
  "isWhiteSpace c = (c \<in> set [CHR 0x09, CHR 0x0A, CHR 0x0B, CHR 0x0C, CHR 0x0D, CHR 0x20, CHR 0xA0])"

definition trim :: "string \<Rightarrow> string" where
  "trim s = rev (dropWhile isWhiteSpace (rev (dropWhile isWhiteSpace s)))"

text \<open>
  \<^verbatim>\<open>parseInt(s)\<close> with no radix: leading white space is skipped, one sign is read,
  a \<^verbatim>\<open>0x\<close> prefix selects radix 16, and the longest prefix of digits is the value.
  \<open>None\<close> is \<^verbatim>\<open>NaN\<close>.
\<close>

definition digitValue :: "char \<Rightarrow> nat" where
  "digitValue c =
     (let k = of_char c :: nat in
      if 48 \<le> k \<and> k \<le> 57 then k - 48
      else if 97 \<le> k \<and> k \<le> 122 then k - 87
      else if 65 \<le> k \<and> k \<le> 90 then k - 55
      else 36)"

definition digitsValue :: "nat \<Rightarrow> string \<Rightarrow> nat" where
  "digitsValue radix ds = foldl (\<lambda>acc c. acc * radix + digitValue c) 0 ds"

definition parseInt :: "string \<Rightarrow> int option" where
  "parseInt s =
     (let s1 = dropWhile isWhiteSpace s;
          sgn = (case s1 of c # _ \<Rightarrow> if c = CHR ''-'' then (- 1 :: int) else 1 | [] \<Rightarrow> 1);
          s2 = (case s1 of c # t \<Rightarrow> if c = CHR ''-'' \<or> c = CHR ''+'' then t else s1 | [] \<Rightarrow> s1);
          hex = (case s2 of a # b # _ \<Rightarrow> a = CHR ''0'' \<and> (b = CHR ''x'' \<or> b = CHR ''X'') | _ \<Rightarrow> False);
          radix = (if hex then 16 else 10);
          s3 = (if hex then drop 2 s2 else s2);
          ds = takeWhile (\<lambda>c. digitValue c < radix) s3
      in if ds = [] then None else Some (sgn * int (digitsValue radix ds)))"

section \<open>The rate limiter of braveSearchTools.ts\<close>

definition perSecond :: nat where
  "perSecond = 1"

definition perMonth :: nat where
  "perMonth = 2000"

definition maxAttempts :: nat where
  "maxAttempts = 3"

definition initialDelayMs :: int where
  "initialDelayMs = 1000"

definition maxDelayMs :: int where
  "maxDelayMs = 10000"

definition backoffMultiplier :: int where
  "backoffMultiplier = 2"

definition jitterFactor :: real where
  "jitterFactor = 1 / 10"

text \<open>
  The module-level \<^verbatim>\<open>requestCount\<close>. The counters start at 0 and are only
  incremented or reset, so they are naturals; \<^verbatim>\<open>Date.now()\<close> is an integer
  number of milliseconds.
\<close>

record request_count =
  second :: nat
  month :: nat
  lastSecondReset :: int
  lastMonthReset :: int

record rate_check =
  canProceed :: bool
  waitTimeMs :: int
  reason :: "string option"

definition resetWindows :: "int \<Rightarrow> request_count \<Rightarrow> request_count" where
  "resetWindows now rc =
     (let rc1 = (if now - lastSecondReset rc \<ge> 1000
                 then rc\<lparr>second := 0, lastSecondReset := now\<rparr> else rc)
      in if now - lastMonthReset rc1 \<ge> 2592000000
         then rc1\<lparr>month := 0, lastMonthReset := now\<rparr> else rc1)"

definition monthlyReason :: "int \<Rightarrow> request_count \<Rightarrow> string" where
  "monthlyReason now rc =
     ''Monthly rate limit of '' @ showNat perMonth @ '' requests exceeded. Resets in ''
       @ showInt \<lceil>real_of_int (2592000000 - (now - lastMonthReset rc)) / 86400000\<rceil>
       @ '' days.''"

definition secondReason :: "int \<Rightarrow> string" where
  "secondReason waitTime =
     ''Per-second rate limit reached. Wait '' @ showInt waitTime @ ''ms before retry.''"

text \<open>
  \<^verbatim>\<open>checkRateLimit()\<close>: \<open>now\<close> is the value its one call of
  \<^verbatim>\<open>Date.now()\<close> returned. It returns the answer and the updated counters.
\<close>

definition checkRateLimit :: "int \<Rightarrow> request_count \<Rightarrow> rate_check \<times> request_count" where
  "checkRateLimit now rc0 =
     (let rc = resetWindows now rc0 in
      if month rc \<ge> perMonth then
        (\<lparr>canProceed = False, waitTimeMs = 0, reason = Some (monthlyReason now rc)\<rparr>, rc)
      else if second rc \<ge> perSecond then
        (let waitTime = 1000 - (now - lastSecondReset rc) in
         (\<lparr>canProceed = False, waitTimeMs = max 0 waitTime,
           reason = Some (secondReason waitTime)\<rparr>, rc))
      else (\<lparr>canProceed = True, waitTimeMs = 0, reason = None\<rparr>, rc))"

definition incrementRateLimit :: "request_count \<Rightarrow> request_count" where
  "incrementRateLimit rc = rc\<lparr>second := second rc + 1, month := month rc + 1\<rparr>"

text \<open>
  \<^verbatim>\<open>addJitter(delayMs)\<close>, with \<open>rnd\<close> the value of \<^verbatim>\<open>Math.random()\<close>.
  The arithmetic is over the reals; \<^verbatim>\<open>Math.round\<close> rounds half up.
\<close>

definition mathRound :: "real \<Rightarrow> int" where
  "mathRound x = \<lfloor>x + 1 / 2\<rfloor>"

definition addJitter :: "real \<Rightarrow> int \<Rightarrow> int" where
  "addJitter rnd delayMs =
     (let jitter = real_of_int delayMs * jitterFactor * (rnd - 1 / 2)
      in mathRound (real_of_int delayMs + jitter))"

section \<open>performBraveSearch\<close>

text \<open>
  What the code observes of the value \<^verbatim>\<open>response.json()\<close> resolves to. The cast
  \<^verbatim>\<open>as BraveWeb\<close> checks nothing, so the value is any JSON value:
  \<^item> \<open>NullBody\<close>: the value is \<^verbatim>\<open>null\<close>, and reading \<^verbatim>\<open>data.web\<close> throws;
  \<^item> \<open>NoResults\<close>: \<^verbatim>\<open>data.web?.results\<close> is absent or falsy, so \<^verbatim>\<open>[]\<close> is used;
  \<^item> \<open>NotAnArray\<close>: it is truthy and not an array, so \<^verbatim>\<open>.map\<close> is not a function;
  \<^item> \<open>ResultArray\<close>: it is an array. An element is \<^verbatim>\<open>null\<close> (\<open>NullItem\<close>), or
    has three fields, each falsy (or absent) or truthy with the text the template literal
    prints for it.
  \<open>jsonBody\<close> and \<open>textBody\<close> are what \<^verbatim>\<open>response.json()\<close> and
  \<^verbatim>\<open>response.text()\<close> settle to; \<open>retryAfter\<close> is
  \<^verbatim>\<open>response.headers.get('retry-after')\<close>.
\<close>

datatype field = Falsy | Truthy string

datatype result_item = NullItem | Item field field field

datatype parsed_body = NullBody | NoResults | NotAnArray | ResultArray "result_item list"

record response =
  status :: nat
  statusText :: string
  retryAfter :: "string option"
  textBody :: "js_error + string"
  jsonBody :: "js_error + parsed_body"

datatype fetch_outcome = Rejects js_error | Resolves response

text \<open>
  The world outside the function: the \<open>k\<close>-th value of \<^verbatim>\<open>Date.now()\<close>, the
  \<open>k\<close>-th value of \<^verbatim>\<open>Math.random()\<close>, and the outcome of the \<open>k\<close>-th
  \<^verbatim>\<open>fetch\<close> for the query, count and offset of its URL.
\<close>

record env =
  dateNow :: "nat \<Rightarrow> int"
  mathRandom :: "nat \<Rightarrow> real"
  fetch :: "nat \<Rightarrow> string \<Rightarrow> int \<Rightarrow> int \<Rightarrow> fetch_outcome"

text \<open>
  The state one execution threads: the module's counters, how many clock reads, random
  numbers and fetches it has made, how often \<^verbatim>\<open>incrementRateLimit\<close> ran, and the
  argument of every \<^verbatim>\<open>sleep\<close> in order (\<open>None\<close> is \<^verbatim>\<open>NaN\<close>).
\<close>

record search_state =
  requestCount :: request_count
  clockReads :: nat
  randomCalls :: nat
  fetchCalls :: nat
  commits :: nat
  sleeps :: "int option list"

definition sleepJittered :: "env \<Rightarrow> int option \<Rightarrow> search_state \<Rightarrow> search_state" where
  "sleepJittered e delayMs s =
     s\<lparr>randomCalls := randomCalls s + 1,
       sleeps := sleeps s @ [map_option (addJitter (mathRandom e (randomCalls s))) delayMs]\<rparr>"

definition commit :: "search_state \<Rightarrow> search_state" where
  "commit s = s\<lparr>requestCount := incrementRateLimit (requestCount s), commits := commits s + 1\<rparr>"

definition orElse :: "string \<Rightarrow> string \<Rightarrow> string" where
  "orElse s d = (if s = [] then d else s)"

fun joinWith :: "string \<Rightarrow> string list \<Rightarrow> string" where
  "joinWith sep [] = []"
| "joinWith sep [x] = x"
| "joinWith sep (x # y # ys) = x @ sep @ joinWith sep (y # ys)"

definition fieldOr :: "field \<Rightarrow> string \<Rightarrow> string" where
  "fieldOr f d = (case f of Falsy \<Rightarrow> d | Truthy s \<Rightarrow> s)"

fun renderItem :: "result_item \<Rightarrow> string" where
  "renderItem NullItem = []"
| "renderItem (Item t d u) =
     ''Title: '' @ fieldOr t ''N/A'' @ [LF]
       @ ''Description: '' @ fieldOr d ''N/A'' @ [LF]
       @ ''URL: '' @ fieldOr u ''#''"

text \<open>
  The \<^verbatim>\<open>TypeError\<close>s are raised by the engine; their messages follow V8's wording
  and nothing below depends on them.
\<close>

definition typeError :: "string \<Rightarrow> js_error" where
  "typeError msg = JsError ''TypeError'' msg"

definition cannotReadNull :: "string \<Rightarrow> string" where
  "cannotReadNull property =
     ''Cannot read properties of null (reading '' @ [CHR 0x27] @ property @ [CHR 0x27] @ '')''"

text \<open>
  Lines 286 to 305, which run after \<^verbatim>\<open>incrementRateLimit()\<close>: the results are
  mapped (every element is read before anything is rendered), then rendered.
\<close>

definition processBody :: "parsed_body \<Rightarrow> js_error + string" where
  "processBody data =
     (case data of
        NullBody \<Rightarrow> Inl (typeError (cannotReadNull ''web''))
      | NoResults \<Rightarrow> Inr ''No results found for your query.''
      | NotAnArray \<Rightarrow> Inl (typeError ''(data.web?.results || []).map is not a function'')
      | ResultArray items \<Rightarrow>
          if NullItem \<in> set items then Inl (typeError (cannotReadNull ''title''))
          else if items = [] then Inr ''No results found for your query.''
          else Inr (joinWith [LF, LF] (map renderItem items)))"

text \<open>How one pass through the body of the \<^verbatim>\<open>while\<close> loop ends.\<close>

datatype flow = Return string | Throw js_error | Continue | FallThrough

definition backoff :: "nat \<Rightarrow> int" where
  "backoff attempt = initialDelayMs * backoffMultiplier ^ (attempt - 1)"

text \<open>The rate-limit check at the top of the loop body (lines 196 to 221).\<close>

definition rateLimitGate :: "env \<Rightarrow> nat \<Rightarrow> search_state \<Rightarrow> flow \<times> search_state" where
  "rateLimitGate e attempt s =
     (let now = dateNow e (clockReads s);
          chk = fst (checkRateLimit now (requestCount s));
          s1 = s\<lparr>requestCount := snd (checkRateLimit now (requestCount s)),
                 clockReads := clockReads s + 1\<rparr>
      in if \<not> canProceed chk then
           if waitTimeMs chk = 0 then
             (Throw (newError (case reason chk of
                                 Some r \<Rightarrow> orElse r ''Monthly rate limit exceeded.''
                               | None \<Rightarrow> ''Monthly rate limit exceeded.'')), s1)
           else if attempt < maxAttempts then
             (Continue, sleepJittered e (Some (waitTimeMs chk)) s1)
           else (FallThrough, s1)
         else (FallThrough, s1))"

definition retryDelayMs :: "string option \<Rightarrow> nat \<Rightarrow> int option" where
  "retryDelayMs hdr attempt =
     (case hdr of
        Some h \<Rightarrow> if h \<noteq> [] then map_option (\<lambda>n. n * 1000) (parseInt h)
                  else Some (min (backoff attempt) maxDelayMs)
      | None \<Rightarrow> Some (min (backoff attempt) maxDelayMs))"

definition attemptSuffix :: "nat \<Rightarrow> string" where
  "attemptSuffix attempt = ''Attempt '' @ showNat attempt @ ''/'' @ showNat maxAttempts"

text \<open>The \<^verbatim>\<open>try\<close> block (lines 231 to 305).\<close>

definition tryBody ::
  "env \<Rightarrow> string \<Rightarrow> int \<Rightarrow> int \<Rightarrow> nat \<Rightarrow> js_error option \<Rightarrow> search_state
     \<Rightarrow> flow \<times> js_error option \<times> search_state" where
  "tryBody e q cnt off attempt lastError s =
     (let s1 = s\<lparr>fetchCalls := fetchCalls s + 1\<rparr> in
      case fetch e (fetchCalls s) q (min cnt 20) (max 0 (min off 9)) of
        Rejects err \<Rightarrow> (Throw err, lastError, s1)
      | Resolves r \<Rightarrow>
          if status r = 429 then
            (let lastError' = Some (newError
                   (''Brave API rate limit exceeded (429). '' @ attemptSuffix attempt))
             in if attempt < maxAttempts then
                  (Continue, lastError', sleepJittered e (retryDelayMs (retryAfter r) attempt) s1)
                else
                  (Throw (newError (''Brave API rate limit exceeded after ''
                       @ showNat maxAttempts @ '' attempts. Please wait before retrying.'')),
                   lastError', s1))
          else if \<not> (200 \<le> status r \<and> status r \<le> 299) then
            (case textBody r of
               Inl err \<Rightarrow> (Throw err, lastError, s1)
             | Inr t \<Rightarrow>
                 (Throw (newError (''Brave API error: '' @ showNat (status r) @ '' ''
                      @ statusText r @ ''. Details: '' @ t)), lastError, s1))
          else
            (case jsonBody r of
               Inl err \<Rightarrow> (Throw err, lastError, s1)
             | Inr data \<Rightarrow>
                 (case processBody data of
                    Inl err \<Rightarrow> (Throw err, lastError, commit s1)
                  | Inr rendered \<Rightarrow> (Return rendered, lastError, commit s1))))"

text \<open>The \<^verbatim>\<open>catch\<close> block (lines 306 to 329).\<close>

definition catchBlock ::
  "env \<Rightarrow> nat \<Rightarrow> js_error \<Rightarrow> js_error option \<Rightarrow> search_state
     \<Rightarrow> flow \<times> js_error option \<times> search_state" where
  "catchBlock e attempt err lastError s =
     (if err_name err = ''AbortError'' then
        (let lastError' = Some (newError
               (''Request timeout after 10 seconds. '' @ attemptSuffix attempt))
         in if attempt < maxAttempts then
              (Continue, lastError', sleepJittered e (Some (backoff attempt)) s)
            else (Throw err, lastError', s))
      else (Throw err, lastError, s))"

text \<open>One pass through the loop body, \<open>attempt\<close> already incremented.\<close>

definition iteration ::
  "env \<Rightarrow> string \<Rightarrow> int \<Rightarrow> int \<Rightarrow> nat \<Rightarrow> js_error option \<Rightarrow> search_state
     \<Rightarrow> flow \<times> js_error option \<times> search_state" where
  "iteration e q cnt off attempt lastError s =
     (case rateLimitGate e attempt s of
        (FallThrough, s1) \<Rightarrow>
          (case tryBody e q cnt off attempt lastError s1 of
             (Throw err, lastError', s2) \<Rightarrow> catchBlock e attempt err lastError' s2
           | other \<Rightarrow> other)
      | (fl, s1) \<Rightarrow> (fl, lastError, s1))"

text \<open>
  The \<^verbatim>\<open>while (attempt < maxAttempts)\<close> loop; \<open>attempt\<close> is the counter on
  entry to the loop test, and the last line is the \<^verbatim>\<open>throw\<close> after the loop.
\<close>

function performLoop ::
  "env \<Rightarrow> string \<Rightarrow> int \<Rightarrow> int \<Rightarrow> nat \<Rightarrow> js_error option \<Rightarrow> search_state
     \<Rightarrow> (js_error + string) \<times> search_state" where
  "performLoop e q cnt off attempt lastError s =
     (if attempt < maxAttempts then
        (case iteration e q cnt off (attempt + 1) lastError s of
           (Return v, _, s') \<Rightarrow> (Inr v, s')
         | (Throw err, _, s') \<Rightarrow> (Inl err, s')
         | (_, lastError', s') \<Rightarrow> performLoop e q cnt off (attempt + 1) lastError' s')
      else
        (Inl (case lastError of
                Some err \<Rightarrow> err
              | None \<Rightarrow> newError ''Search failed after maximum retry attempts''), s))"
  by pat_completeness auto
termination
  by (relation "measure (\<lambda>(e, q, cnt, off, attempt, lastError, s). maxAttempts - attempt)") auto

declare performLoop.simps [simp del]

definition performBraveSearch ::
  "env \<Rightarrow> string \<Rightarrow> int \<Rightarrow> int \<Rightarrow> search_state \<Rightarrow> (js_error + string) \<times> search_state" where
  "performBraveSearch e q cnt off s = performLoop e q cnt off 0 None s"


subsection \<open>Notions used to state the properties of the retry loop\<close>

text \<open>
  The \<open>k\<close>-th upstream request of an execution, and when its response is a success:
  the promise resolved, the status is 2xx and the body parsed. That is the one path of
  the \<^verbatim>\<open>try\<close> block that reaches \<^verbatim>\<open>incrementRateLimit()\<close>.
\<close>

definition request :: "env \<Rightarrow> string \<Rightarrow> int \<Rightarrow> int \<Rightarrow> nat \<Rightarrow> fetch_outcome" where
  "request e q cnt off k = fetch e k q (min cnt 20) (max 0 (min off 9))"

definition successful :: "fetch_outcome \<Rightarrow> bool" where
  "successful out =
     (case out of
        Rejects _ \<Rightarrow> False
      | Resolves r \<Rightarrow> 200 \<le> status r \<and> status r \<le> 299 \<and> \<not> isl (jsonBody r))"

definition successCount :: "env \<Rightarrow> string \<Rightarrow> int \<Rightarrow> int \<Rightarrow> search_state \<Rightarrow> search_state \<Rightarrow> nat" where
  "successCount e q cnt off s s' =
     length (filter (\<lambda>k. successful (request e q cnt off k)) [fetchCalls s ..< fetchCalls s'])"

text \<open>
  A retryable failure: HTTP 429, or an \<^verbatim>\<open>AbortError\<close> (the 10 second timeout)
  raised by \<^verbatim>\<open>fetch\<close> or while the body is read.
\<close>

definition isAbort :: "js_error \<Rightarrow> bool" where
  "isAbort err = (err_name err = ''AbortError'')"

definition retryableFailure :: "fetch_outcome \<Rightarrow> bool" where
  "retryableFailure out =
     (case out of
        Rejects err \<Rightarrow> isAbort err
      | Resolves r \<Rightarrow>
          status r = 429
          \<or> (200 \<le> status r \<and> status r \<le> 299 \<and> (case jsonBody r of Inl err \<Rightarrow> isAbort err | Inr _ \<Rightarrow> False))
          \<or> (\<not> (200 \<le> status r \<and> status r \<le> 299) \<and> (case textBody r of Inl err \<Rightarrow> isAbort err | Inr _ \<Rightarrow> False)))"

text \<open>The error the last attempt leaves the function with, for a retryable failure.\<close>

definition exhaustedError :: "fetch_outcome \<Rightarrow> js_error" where
  "exhaustedError out =
     (case out of
        Rejects err \<Rightarrow> err
      | Resolves r \<Rightarrow>
          if status r = 429 then
            newError (''Brave API rate limit exceeded after '' @ showNat maxAttempts
              @ '' attempts. Please wait before retrying.'')
          else if 200 \<le> status r \<and> status r \<le> 299 then
            (case jsonBody r of Inl err \<Rightarrow> err | Inr _ \<Rightarrow> newError [])
          else (case textBody r of Inl err \<Rightarrow> err | Inr _ \<Rightarrow> newError []))"

text \<open>
  A provider hint the computed backoff would also allow: no \<^verbatim>\<open>Retry-After\<close>
  header, an empty one, or a number of seconds from 0 to 10.
\<close>

definition modestRetryAfter :: "fetch_outcome \<Rightarrow> bool" where
  "modestRetryAfter out =
     (case out of
        Rejects _ \<Rightarrow> True
      | Resolves r \<Rightarrow>
          (case retryAfter r of
             None \<Rightarrow> True
           | Some h \<Rightarrow> h = [] \<or> (case parseInt h of None \<Rightarrow> False | Some n \<Rightarrow> 0 \<le> n \<and> n \<le> 10)))"

section \<open>cosineSimilarity of the embedding service\<close>

text \<open>
  A \<^verbatim>\<open>Float32Array\<close> is a list of reals; the three sums are accumulated over
  the indices of \<open>vecA\<close> as the \<^verbatim>\<open>for\<close> loop does.
\<close>

definition cosineStep :: "real list \<Rightarrow> real list \<Rightarrow> nat \<Rightarrow> real \<times> real \<times> real \<Rightarrow> real \<times> real \<times> real" where
  "cosineStep vecA vecB i acc =
     (case acc of (dotProduct, magnitudeA, magnitudeB) \<Rightarrow>
        (dotProduct + vecA ! i * vecB ! i,
         magnitudeA + vecA ! i * vecA ! i,
         magnitudeB + vecB ! i * vecB ! i))"

definition cosineSimilarity :: "real list \<Rightarrow> real list \<Rightarrow> js_error + real" where
  "cosineSimilarity vecA vecB =
     (if length vecA \<noteq> length vecB then
        Inl (newError (''Vector dimension mismatch: '' @ showNat (length vecA)
               @ '' vs '' @ showNat (length vecB)))
      else
        (case fold (cosineStep vecA vecB) [0 ..< length vecA] (0, 0, 0) of
           (dotProduct, sumA, sumB) \<Rightarrow>
             (let magnitudeA = sqrt sumA; magnitudeB = sqrt sumB
              in if magnitudeA = 0 \<or> magnitudeB = 0 then Inr 0
                 else Inr (dotProduct / (magnitudeA * magnitudeB)))))"

definition magnitude :: "real list \<Rightarrow> real" where
  "magnitude v = sqrt (\<Sum>x\<leftarrow>v. x * x)"

section \<open>The semantic cache\<close>

text \<open>
  A row of the table \<^verbatim>\<open>search_cache\<close> and a \<^verbatim>\<open>CacheHit\<close>. The stored blob is
  the embedding itself.
\<close>

record cache_entry =
  entry_id :: nat
  query :: string
  query_embedding :: "real list"
  results :: string
  search_type :: string
  timestamp :: int
  ttl :: int

record cache_hit =
  hit_results :: string
  hit_timestamp :: int
  hit_query :: string
  similarity :: real

text \<open>
  The service: whether \<^verbatim>\<open>this.db\<close> is set, the rows of the table in insertion
  order, the AUTOINCREMENT sequence, and the log lines written (level and message; the
  structured payload of a log call is left out).
\<close>

record cache_service =
  dbOpen :: bool
  cacheTable :: "cache_entry list"
  lastRowId :: nat
  logged :: "(string \<times> string) list"

datatype init_outcome = Opened | OpenFails js_error | SetupFails js_error

text \<open>
  The world outside one call of the service: the value of \<^verbatim>\<open>Date.now()\<close>, the
  embedding model (which may reject), how opening the database ends (it can fail before
  \<^verbatim>\<open>this.db\<close> is assigned or after), and the error, if any, each SQL statement
  raises.
\<close>

record cache_env =
  clock :: int
  embed :: "string \<Rightarrow> js_error + real list"
  openDb :: init_outcome
  deleteError :: "js_error option"
  selectError :: "js_error option"
  insertError :: "js_error option"

definition similarityThreshold :: real where
  "similarityThreshold = 92 / 100"

definition logLine :: "string \<Rightarrow> string \<Rightarrow> cache_service \<Rightarrow> cache_service" where
  "logLine level msg svc = svc\<lparr>logged := logged svc @ [(level, msg)]\<rparr>"

text \<open>\<^verbatim>\<open>initialize()\<close>: \<open>Some err\<close> is the rejection it rethrows.\<close>

definition initialize :: "cache_env \<Rightarrow> cache_service \<Rightarrow> js_error option \<times> cache_service" where
  "initialize ce svc =
     (if dbOpen svc then (None, svc)
      else
        (case openDb ce of
           Opened \<Rightarrow> (None, logLine ''info'' ''[Cache] Initialized successfully'' (svc\<lparr>dbOpen := True\<rparr>))
         | OpenFails err \<Rightarrow> (Some err, logLine ''error'' ''[Cache] Failed to initialize'' svc)
         | SetupFails err \<Rightarrow>
             (Some err, logLine ''error'' ''[Cache] Failed to initialize'' (svc\<lparr>dbOpen := True\<rparr>))))"

text \<open>\<^verbatim>\<open>cleanupExpired()\<close>: \<^verbatim>\<open>DELETE ... WHERE timestamp + ttl < now\<close>.\<close>

definition cleanupExpired :: "cache_env \<Rightarrow> cache_service \<Rightarrow> cache_service" where
  "cleanupExpired ce svc =
     (if \<not> dbOpen svc then svc
      else
        (case deleteError ce of
           Some err \<Rightarrow> logLine ''error'' ''[Cache] Failed to cleanup'' svc
         | None \<Rightarrow>
             (let kept = filter (\<lambda>entry. \<not> timestamp entry + ttl entry < clock ce) (cacheTable svc);
                  changes = length (cacheTable svc) - length kept;
                  svc1 = svc\<lparr>cacheTable := kept\<rparr>
              in if changes > 0 then
                   logLine ''info'' (''[Cache] Cleaned up '' @ showNat changes @ '' expired entries'') svc1
                 else svc1)))"

text \<open>
  The \<^verbatim>\<open>SELECT ... WHERE search_type = ? ORDER BY timestamp DESC LIMIT 100\<close>.
  SQLite leaves the order of rows with equal timestamps open; the model sorts stably.
\<close>

definition selectRecent :: "string \<Rightarrow> cache_entry list \<Rightarrow> cache_entry list" where
  "selectRecent searchType rows =
     take 100 (sort_key (\<lambda>entry. - timestamp entry) (filter (\<lambda>entry. search_type entry = searchType) rows))"

definition hitOf :: "cache_entry \<Rightarrow> real \<Rightarrow> cache_hit" where
  "hitOf entry sim =
     \<lparr>hit_results = results entry, hit_timestamp = timestamp entry,
      hit_query = query entry, similarity = sim\<rparr>"

text \<open>The \<^verbatim>\<open>for (const entry of entries)\<close> loop with its two variables.\<close>

fun scan :: "real list \<Rightarrow> cache_entry list \<Rightarrow> cache_hit option \<Rightarrow> real
      \<Rightarrow> js_error + cache_hit option" where
  "scan queryEmbedding [] bestMatch bestSimilarity = Inr bestMatch"
| "scan queryEmbedding (entry # rest) bestMatch bestSimilarity =
     (case cosineSimilarity queryEmbedding (query_embedding entry) of
        Inl err \<Rightarrow> Inl err
      | Inr sim \<Rightarrow>
          if sim > bestSimilarity \<and> sim \<ge> similarityThreshold
          then scan queryEmbedding rest (Some (hitOf entry sim)) sim
          else scan queryEmbedding rest bestMatch bestSimilarity)"

definition findFailed :: "cache_service \<Rightarrow> cache_service" where
  "findFailed svc = logLine ''error'' ''[Cache] Error finding similar query'' svc"

definition findSimilar ::
  "cache_env \<Rightarrow> string \<Rightarrow> string \<Rightarrow> cache_service \<Rightarrow> (js_error + cache_hit option) \<times> cache_service" where
  "findSimilar ce q searchType svc0 =
     (case initialize ce svc0 of
        (Some err, svc) \<Rightarrow> (Inl err, svc)
      | (None, svc) \<Rightarrow>
          (case embed ce q of
             Inl err \<Rightarrow> (Inr None, findFailed svc)
           | Inr queryEmbedding \<Rightarrow>
               (let svc1 = cleanupExpired ce svc in
                case selectError ce of
                  Some err \<Rightarrow> (Inr None, findFailed svc1)
                | None \<Rightarrow>
                    (case scan queryEmbedding (selectRecent searchType (cacheTable svc1)) None 0 of
                       Inl err \<Rightarrow> (Inr None, findFailed svc1)
                     | Inr None \<Rightarrow> (Inr None, svc1)
                     | Inr (Some hit) \<Rightarrow> (Inr (Some hit), logLine ''info'' ''[Cache] HIT'' svc1)))))"

definition storeFailed :: "cache_service \<Rightarrow> cache_service" where
  "storeFailed svc = logLine ''error'' ''[Cache] Failed to store entry'' svc"

definition store ::
  "cache_env \<Rightarrow> string \<Rightarrow> string \<Rightarrow> string \<Rightarrow> int \<Rightarrow> cache_service
     \<Rightarrow> (js_error + unit) \<times> cache_service" where
  "store ce q searchType res ttlSeconds svc0 =
     (case initialize ce svc0 of
        (Some err, svc) \<Rightarrow> (Inl err, svc)
      | (None, svc) \<Rightarrow>
          (case embed ce q of
             Inl err \<Rightarrow> (Inr (), storeFailed svc)
           | Inr queryEmbedding \<Rightarrow>
               (case insertError ce of
                  Some err \<Rightarrow> (Inr (), storeFailed svc)
                | None \<Rightarrow>
                    (Inr (),
                     logLine ''info'' ''[Cache] Stored new entry''
                       (svc\<lparr>cacheTable := cacheTable svc @
                               [\<lparr>entry_id = lastRowId svc + 1, query = q,
                                 query_embedding = queryEmbedding, results = res,
                                 search_type = searchType, timestamp = clock ce,
                                 ttl = ttlSeconds * 1000\<rparr>],
                             lastRowId := lastRowId svc + 1\<rparr>)))))"

section \<open>parseSearchResults of the result processor\<close>

text \<open>
  \<^verbatim>\<open>s.split(sep)\<close> for a non-empty separator: left to right, without overlap;
  \<open>cur\<close> is the piece being read, reversed.
\<close>

function splitFrom :: "string \<Rightarrow> string \<Rightarrow> string \<Rightarrow> string list" where
  "splitFrom sep cur s =
     (if sep \<noteq> [] \<and> prefix sep s then rev cur # splitFrom sep [] (drop (length sep) s)
      else (case s of [] \<Rightarrow> [rev cur] | c # t \<Rightarrow> splitFrom sep (c # cur) t))"
  by pat_completeness auto
termination
  by (relation "measure (\<lambda>(sep, cur, s). length s)") (auto simp: prefix_def)

declare splitFrom.simps [simp del]

definition js_split :: "string \<Rightarrow> string \<Rightarrow> string list" where
  "js_split sep s = splitFrom sep [] s"

record partial_result =
  p_title :: "string option"
  p_description :: "string option"
  p_url :: "string option"

record search_result =
  title :: string
  description :: "string option"
  url :: string

definition parseLine :: "partial_result \<Rightarrow> string \<Rightarrow> partial_result" where
  "parseLine r line =
     (if prefix ''Title: '' line then r\<lparr>p_title := Some (trim (drop 7 line))\<rparr>
      else if prefix ''Description: '' line then r\<lparr>p_description := Some (trim (drop 13 line))\<rparr>
      else if prefix ''URL: '' line then r\<lparr>p_url := Some (trim (drop 5 line))\<rparr>
      else r)"

definition truthy :: "string option \<Rightarrow> bool" where
  "truthy v = (case v of Some s \<Rightarrow> s \<noteq> [] | None \<Rightarrow> False)"

definition parseBlock :: "string \<Rightarrow> search_result list" where
  "parseBlock block =
     (let r = foldl parseLine \<lparr>p_title = None, p_description = None, p_url = None\<rparr>
                (js_split [LF] block)
      in if truthy (p_title r) \<and> truthy (p_url r)
         then [\<lparr>title = the (p_title r), description = p_description r, url = the (p_url r)\<rparr>]
         else [])"

definition resultBlocks :: "string \<Rightarrow> string list" where
  "resultBlocks rawText = filter (\<lambda>b. trim b \<noteq> []) (js_split [LF, LF] rawText)"

definition parseSearchResults :: "string \<Rightarrow> search_result list" where
  "parseSearchResults rawText = concat (map parseBlock (resultBlocks rawText))"

text \<open>
  To state what the parser emits: whether a block has a line with a given label, and
  the text after the label on the last such line.
\<close>

definition hasLine :: "string \<Rightarrow> string \<Rightarrow> bool" where
  "hasLine label block = (find (prefix label) (js_split [LF] block) \<noteq> None)"

definition lastValue :: "string \<Rightarrow> string \<Rightarrow> string option" where
  "lastValue label block =
     map_option (\<lambda>line. trim (drop (length label) line))
       (find (prefix label) (rev (js_split [LF] block)))"

section \<open>Notions used to state the bound on the delays\<close>

text \<open>
  A slept delay within the bound, and a clock that is never behind the last reset of the
  per-second window.
\<close>

definition boundedDelay :: "int option \<Rightarrow> bool" where
  "boundedDelay d = (case d of None \<Rightarrow> False | Some v \<Rightarrow> 0 \<le> v \<and> v \<le> 10500)"

definition clockAhead :: "env \<Rightarrow> search_state \<Rightarrow> bool" where
  "clockAhead e s = (\<forall>k \<ge> clockReads s. lastSecondReset (requestCount s) \<le> dateNow e k)"


section \<open>Concrete executions\<close>

text \<open>Environments and states on which the theorems below are instantiated.\<close>

definition abortError :: js_error where
  "abortError = JsError ''AbortError'' ''This operation was aborted''"

definition resp429 :: "string option \<Rightarrow> response" where
  "resp429 hdr = \<lparr>status = 429, statusText = ''Too Many Requests'', retryAfter = hdr,
     textBody = Inr [], jsonBody = Inr NoResults\<rparr>"

definition respOk :: response where
  "respOk = \<lparr>status = 200, statusText = ''OK'', retryAfter = None, textBody = Inr [],
     jsonBody = Inr NoResults\<rparr>"

definition nullBody :: env where
  "nullBody = \<lparr>dateNow = (\<lambda>k. 1000 * int k + 500), mathRandom = (\<lambda>k. 1 / 2),
     fetch = (\<lambda>k q c off. Resolves (respOk\<lparr>jsonBody := Inr NullBody\<rparr>))\<rparr>"

definition always429 :: env where
  "always429 = \<lparr>dateNow = (\<lambda>k. 1000 * int k + 500), mathRandom = (\<lambda>k. 1 / 2),
     fetch = (\<lambda>k q c off. Resolves (resp429 None))\<rparr>"

definition flakyThenOk :: env where
  "flakyThenOk = \<lparr>dateNow = (\<lambda>k. 1000 * int k + 500), mathRandom = (\<lambda>k. 1 / 2),
     fetch = (\<lambda>k q c off. if k = 0 then Resolves (resp429 None) else Resolves respOk)\<rparr>"

definition idle :: search_state where
  "idle = \<lparr>requestCount = \<lparr>second = 0, month = 0, lastSecondReset = 0, lastMonthReset = 0\<rparr>,
     clockReads = 0, randomCalls = 0, fetchCalls = 0, commits = 0, sleeps = []\<rparr>"

definition justCalled :: search_state where
  "justCalled = idle\<lparr>requestCount := \<lparr>second = 1, month = 1, lastSecondReset = 0, lastMonthReset = 0\<rparr>\<rparr>"



definition aborting :: env where
  "aborting = \<lparr>dateNow = (\<lambda>k. 1000 * int k + 500), mathRandom = (\<lambda>k. 1 / 2),
     fetch = (\<lambda>k q c off. Rejects abortError)\<rparr>"

definition mixedFailures :: env where
  "mixedFailures = \<lparr>dateNow = (\<lambda>k. 1000 * int k + 500), mathRandom = (\<lambda>k. 3 / 4),
     fetch = (\<lambda>k q c off. if k = 0 then Resolves (resp429 (Some ''2''))
                              else if k = 1 then Rejects abortError else Resolves respOk)\<rparr>"

definition hinted60 :: env where
  "hinted60 = \<lparr>dateNow = (\<lambda>k. 1000 * int k + 500), mathRandom = (\<lambda>k. 1 / 2),
     fetch = (\<lambda>k q c off. if k = 0 then Resolves (resp429 (Some ''60'')) else Resolves respOk)\<rparr>"

definition ceAt5 :: cache_env where
  "ceAt5 = \<lparr>clock = 5, embed = (\<lambda>text. Inr [1]), openDb = Opened,
     deleteError = None, selectError = None, insertError = None\<rparr>"

definition emptyCache :: cache_service where
  "emptyCache = \<lparr>dbOpen = True, cacheTable = [], lastRowId = 0, logged = []\<rparr>"

definition cantOpen :: js_error where
  "cantOpen = JsError ''SqliteError'' ''unable to open database file''"

definition scenarioC :: string where
  "scenarioC = ''Title: A'' @ [LF] @ ''URL: http://x.com'' @ [LF, LF]
     @ ''Description: no title or url'' @ [LF, LF]
     @ ''Title: B'' @ [LF] @ ''URL: http://y.com''"

definition blankTitle :: string where
  "blankTitle = ''Title: '' @ [LF] @ ''URL: http://x.com''"

definition blockA :: string where
  "blockA = ''Title: A'' @ [LF] @ ''URL: http://x.com''"


definition staleCache :: cache_service where
  "staleCache = emptyCache\<lparr>cacheTable :=
     [\<lparr>entry_id = 1, query = ''q'', query_embedding = [1], results = ''R'',
       search_type = ''web'', timestamp = 0, ttl = 1\<rparr>], lastRowId := 1\<rparr>"

definition purgeFails :: cache_env where
  "purgeFails = ceAt5\<lparr>deleteError := Some (JsError ''SqliteError'' ''database is locked'')\<rparr>"

section \<open>Properties of the rate limiter and the retry loop\<close>

lemmas run_defs = performBraveSearch_def performLoop.simps iteration_def rateLimitGate_def checkRateLimit_def
  resetWindows_def tryBody_def catchBlock_def sleepJittered_def commit_def incrementRateLimit_def
  retryDelayMs_def backoff_def addJitter_def mathRound_def maxAttempts_def perMonth_def perSecond_def
  initialDelayMs_def maxDelayMs_def backoffMultiplier_def jitterFactor_def newError_def
  processBody_def Let_def

lemma resetWindows_le:
  "second (resetWindows now rc) \<le> second rc" "month (resetWindows now rc) \<le> month rc"
  by (simp_all add: resetWindows_def Let_def)

lemma checkRateLimit_snd: "snd (checkRateLimit now rc) = resetWindows now rc"
  by (simp add: checkRateLimit_def Let_def)

lemma gate_facts:
  assumes "rateLimitGate e a s = (fl, s1)"
  shows "commits s1 = commits s" "fetchCalls s1 = fetchCalls s"
        "requestCount s1 = resetWindows (dateNow e (clockReads s)) (requestCount s)"
        "fl \<noteq> Return v"
  using assms
  by (auto simp: rateLimitGate_def Let_def sleepJittered_def checkRateLimit_snd split: if_splits)

lemma gate_clock:
  assumes "rateLimitGate e a s = (fl, s1)"
  shows "clockReads s1 = clockReads s + 1" "fl \<noteq> Return v" "fl = FallThrough \<or> fl = Continue \<or> (\<exists>err. fl = Throw err)"
  using assms
  by (auto simp: rateLimitGate_def Let_def sleepJittered_def split: if_splits)

lemma processBody_error: "processBody data = Inl err \<Longrightarrow> err_name err = ''TypeError''"
  by (auto simp: processBody_def typeError_def split: parsed_body.splits if_splits)

lemma tryBody_unsuccessful:
  assumes T: "tryBody e q cnt off a le s = (fl, le', s1)"
    and U: "\<not> successful (request e q cnt off (fetchCalls s))"
  shows "fetchCalls s1 = fetchCalls s + 1" "commits s1 = commits s"
    "requestCount s1 = requestCount s" "clockReads s1 = clockReads s"
    "fl = Continue \<or> (\<exists>err. fl = Throw err)"
proof -
  have "fetchCalls s1 = fetchCalls s + 1 \<and> commits s1 = commits s
     \<and> requestCount s1 = requestCount s \<and> clockReads s1 = clockReads s
     \<and> (fl = Continue \<or> (\<exists>err. fl = Throw err))"
  proof (cases "request e q cnt off (fetchCalls s)")
    case (Rejects err)
    then have "fetch e (fetchCalls s) q (min cnt 20) (max 0 (min off 9)) = Rejects err"
      by (simp add: request_def)
    with T show ?thesis by (auto simp: tryBody_def Let_def)
  next
    case (Resolves r)
    then have F: "fetch e (fetchCalls s) q (min cnt 20) (max 0 (min off 9)) = Resolves r"
      by (simp add: request_def)
    show ?thesis
    proof (cases "status r = 429")
      case True
      with T F show ?thesis
        by (cases "a < maxAttempts") (auto simp: tryBody_def Let_def sleepJittered_def)
    next
      case n429: False
      show ?thesis
      proof (cases "200 \<le> status r \<and> status r \<le> 299")
        case True
        with U Resolves obtain err where "jsonBody r = Inl err"
          by (cases "jsonBody r") (auto simp: successful_def)
        with T F n429 True show ?thesis by (auto simp: tryBody_def Let_def)
      next
        case False
        with T F n429 show ?thesis
          by (cases "textBody r") (auto simp: tryBody_def Let_def)
      qed
    qed
  qed
  then show "fetchCalls s1 = fetchCalls s + 1" "commits s1 = commits s"
    "requestCount s1 = requestCount s" "clockReads s1 = clockReads s"
    "fl = Continue \<or> (\<exists>err. fl = Throw err)"
    by blast+
qed

lemma tryBody_successful:
  assumes T: "tryBody e q cnt off a le s = (fl, le', s1)"
    and S: "successful (request e q cnt off (fetchCalls s))"
  shows "fetchCalls s1 = fetchCalls s + 1" "commits s1 = commits s + 1"
    "requestCount s1 = incrementRateLimit (requestCount s)" "clockReads s1 = clockReads s"
    "\<exists>r data. request e q cnt off (fetchCalls s) = Resolves r \<and> jsonBody r = Inr data
        \<and> (case processBody data of Inl err \<Rightarrow> fl = Throw err | Inr v \<Rightarrow> fl = Return v)"
proof -
  from S obtain r data where R: "request e q cnt off (fetchCalls s) = Resolves r"
    and ok: "200 \<le> status r" "status r \<le> 299" and J: "jsonBody r = Inr data"
  proof (cases "request e q cnt off (fetchCalls s)")
    case (Rejects err)
    with S show ?thesis by (simp add: successful_def)
  next
    case (Resolves r)
    with S have ok: "200 \<le> status r" "status r \<le> 299" and nl: "\<not> isl (jsonBody r)"
      by (simp_all add: successful_def)
    from nl obtain data where "jsonBody r = Inr data" by (cases "jsonBody r") auto
    with Resolves ok that show ?thesis by blast
  qed
  from R have F: "fetch e (fetchCalls s) q (min cnt 20) (max 0 (min off 9)) = Resolves r"
    by (simp add: request_def)
  from ok have n429: "status r \<noteq> 429" by simp
  have E: "(case processBody data of
              Inl err \<Rightarrow> (Throw err, le, commit (s\<lparr>fetchCalls := Suc (fetchCalls s)\<rparr>))
            | Inr v \<Rightarrow> (Return v, le, commit (s\<lparr>fetchCalls := Suc (fetchCalls s)\<rparr>)))
           = (fl, le', s1)"
    using T F n429 ok J by (simp add: tryBody_def Let_def)
  then have s1: "s1 = commit (s\<lparr>fetchCalls := Suc (fetchCalls s)\<rparr>)"
    and fl: "(case processBody data of Inl err \<Rightarrow> fl = Throw err | Inr v \<Rightarrow> fl = Return v)"
    by (cases "processBody data"; simp)+
  from s1 show "fetchCalls s1 = fetchCalls s + 1" "commits s1 = commits s + 1"
    "requestCount s1 = incrementRateLimit (requestCount s)" "clockReads s1 = clockReads s"
    by (simp_all add: commit_def)
  from R J fl show "\<exists>r data. request e q cnt off (fetchCalls s) = Resolves r \<and> jsonBody r = Inr data
        \<and> (case processBody data of Inl err \<Rightarrow> fl = Throw err | Inr v \<Rightarrow> fl = Return v)"
    by blast
qed

lemma catch_facts:
  assumes "catchBlock e a err le s = (fl, le', s1)"
  shows "fetchCalls s1 = fetchCalls s" "commits s1 = commits s" "requestCount s1 = requestCount s"
    "fl = Continue \<or> fl = Throw err"
  using assms
  by (auto simp: catchBlock_def Let_def sleepJittered_def split: if_splits)

lemma catch_clock:
  assumes "catchBlock e a err le s = (fl, le', s1)"
  shows "clockReads s1 = clockReads s"
    "err_name err \<noteq> ''AbortError'' \<Longrightarrow> fl = Throw err"
  using assms
  by (auto simp: catchBlock_def Let_def sleepJittered_def split: if_splits)

lemma successCount_same: "fetchCalls s' = fetchCalls s \<Longrightarrow> successCount e q cnt off s s' = 0"
  by (simp add: successCount_def)

lemma successCount_one:
  "fetchCalls s' = fetchCalls s + 1 \<Longrightarrow>
     successCount e q cnt off s s' = (if successful (request e q cnt off (fetchCalls s)) then 1 else 0)"
  by (simp add: successCount_def)

text \<open>What one pass through the loop body does to the counters.\<close>

lemma iteration_facts:
  assumes I: "iteration e q cnt off a le s = (fl, le', s')"
  shows "commits s' = commits s + successCount e q cnt off s s'"
    and "fetchCalls s \<le> fetchCalls s'" and "fetchCalls s' \<le> fetchCalls s + 1"
    and "clockReads s' = clockReads s + 1"
    and "requestCount s' = (incrementRateLimit ^^ successCount e q cnt off s s')
                             (resetWindows (dateNow e (clockReads s)) (requestCount s))"
    and "(\<exists>v. fl = Return v) \<longrightarrow> successCount e q cnt off s s' = 1"
    and "(\<forall>v. fl \<noteq> Return v) \<and> (\<forall>err. fl \<noteq> Throw err) \<longrightarrow> successCount e q cnt off s s' = 0"
    and "successCount e q cnt off s s' = 1 \<longrightarrow>
           (\<exists>r data. request e q cnt off (fetchCalls s' - 1) = Resolves r \<and> jsonBody r = Inr data
              \<and> (case processBody data of Inl err \<Rightarrow> fl = Throw err | Inr v \<Rightarrow> fl = Return v))"
proof -
  obtain g s1 where G: "rateLimitGate e a s = (g, s1)" by (cases "rateLimitGate e a s") auto
  note GF = gate_facts[OF G] gate_clock[OF G]
  have all: "commits s' = commits s + successCount e q cnt off s s'
    \<and> fetchCalls s \<le> fetchCalls s' \<and> fetchCalls s' \<le> fetchCalls s + 1
    \<and> clockReads s' = clockReads s + 1
    \<and> requestCount s' = (incrementRateLimit ^^ successCount e q cnt off s s')
                             (resetWindows (dateNow e (clockReads s)) (requestCount s))
    \<and> ((\<exists>v. fl = Return v) \<longrightarrow> successCount e q cnt off s s' = 1)
    \<and> ((\<forall>v. fl \<noteq> Return v) \<and> (\<forall>err. fl \<noteq> Throw err) \<longrightarrow> successCount e q cnt off s s' = 0)
    \<and> (successCount e q cnt off s s' = 1 \<longrightarrow>
           (\<exists>r data. request e q cnt off (fetchCalls s' - 1) = Resolves r \<and> jsonBody r = Inr data
              \<and> (case processBody data of Inl err \<Rightarrow> fl = Throw err | Inr v \<Rightarrow> fl = Return v)))"
  proof (cases "g = FallThrough")
    case False
    with G I have e: "fl = g" "s' = s1" by (auto simp: iteration_def split: flow.splits)
    have z: "successCount e q cnt off s s' = 0" using e GF(2) by (simp add: successCount_same)
    from e GF z show ?thesis by auto
  next
    case True
    obtain t le1 s2 where T: "tryBody e q cnt off a le s1 = (t, le1, s2)"
      by (cases "tryBody e q cnt off a le s1") auto
    show ?thesis
    proof (cases "successful (request e q cnt off (fetchCalls s))")
      case U: False
      then have U1: "\<not> successful (request e q cnt off (fetchCalls s1))" using GF(2) by simp
      note TF = tryBody_unsuccessful[OF T U1]
      have rest: "fetchCalls s' = fetchCalls s2 \<and> commits s' = commits s2
          \<and> requestCount s' = requestCount s2 \<and> clockReads s' = clockReads s2
          \<and> (fl = Continue \<or> (\<exists>err. fl = Throw err))"
      proof (cases "t = Continue")
        case True
        with \<open>g = FallThrough\<close> G T I have "fl = Continue" "s' = s2" by (auto simp: iteration_def)
        then show ?thesis by simp
      next
        case False
        with TF(5) obtain err where t: "t = Throw err" by blast
        with \<open>g = FallThrough\<close> G T I have C: "catchBlock e a err le1 s2 = (fl, le', s')"
          by (simp add: iteration_def)
        from catch_facts[OF C] catch_clock(1)[OF C] show ?thesis by auto
      qed
      have f: "fetchCalls s' = fetchCalls s + 1" using rest TF GF by simp
      have z: "successCount e q cnt off s s' = 0" using f U by (simp add: successCount_one)
      from rest TF GF f z show ?thesis by auto
    next
      case S: True
      then have S1: "successful (request e q cnt off (fetchCalls s1))" using GF(2) by simp
      note TF = tryBody_successful[OF T S1]
      from TF(5) obtain r data where R: "request e q cnt off (fetchCalls s1) = Resolves r"
        "jsonBody r = Inr data"
        and tcase: "(case processBody data of Inl err \<Rightarrow> t = Throw err | Inr v \<Rightarrow> t = Return v)"
        by blast
      have rest: "s' = s2 \<and> fl = t"
      proof (cases "processBody data")
        case (Inr v)
        with tcase have "t = Return v" by simp
        with \<open>g = FallThrough\<close> G T I show ?thesis by (auto simp: iteration_def)
      next
        case (Inl err)
        with tcase have t: "t = Throw err" by simp
        with \<open>g = FallThrough\<close> G T I have C: "catchBlock e a err le1 s2 = (fl, le', s')"
          by (simp add: iteration_def)
        from processBody_error[OF Inl] have "err_name err \<noteq> ''AbortError''" by simp
        from catch_clock(2)[OF C this] have "fl = Throw err" .
        with C t show ?thesis by (auto simp: catchBlock_def Let_def split: if_splits)
      qed
      have f: "fetchCalls s' = fetchCalls s + 1" using rest TF GF by simp
      have o: "successCount e q cnt off s s' = 1" using f S by (simp add: successCount_one)
      have last: "fetchCalls s' - 1 = fetchCalls s1" using f GF by simp
      have fl: "(case processBody data of Inl err \<Rightarrow> fl = Throw err | Inr v \<Rightarrow> fl = Return v)"
        using tcase rest by (cases "processBody data") auto
      have ex: "\<exists>r data. request e q cnt off (fetchCalls s' - 1) = Resolves r \<and> jsonBody r = Inr data
              \<and> (case processBody data of Inl err \<Rightarrow> fl = Throw err | Inr v \<Rightarrow> fl = Return v)"
        using R fl unfolding last by blast
      have nc: "\<not> ((\<forall>v. fl \<noteq> Return v) \<and> (\<forall>err. fl \<noteq> Throw err))"
        using fl by (cases "processBody data") auto
      from rest TF GF f o ex nc show ?thesis by simp
    qed
  qed
  then show "commits s' = commits s + successCount e q cnt off s s'"
    and "fetchCalls s \<le> fetchCalls s'" and "fetchCalls s' \<le> fetchCalls s + 1"
    and "clockReads s' = clockReads s + 1"
    and "requestCount s' = (incrementRateLimit ^^ successCount e q cnt off s s')
                             (resetWindows (dateNow e (clockReads s)) (requestCount s))"
    and "(\<exists>v. fl = Return v) \<longrightarrow> successCount e q cnt off s s' = 1"
    and "(\<forall>v. fl \<noteq> Return v) \<and> (\<forall>err. fl \<noteq> Throw err) \<longrightarrow> successCount e q cnt off s s' = 0"
    and "successCount e q cnt off s s' = 1 \<longrightarrow>
           (\<exists>r data. request e q cnt off (fetchCalls s' - 1) = Resolves r \<and> jsonBody r = Inr data
              \<and> (case processBody data of Inl err \<Rightarrow> fl = Throw err | Inr v \<Rightarrow> fl = Return v))"
    by blast+
qed

lemma successCount_split:
  assumes "fetchCalls s \<le> fetchCalls s1" "fetchCalls s1 \<le> fetchCalls s'"
  shows "successCount e q cnt off s s' = successCount e q cnt off s s1 + successCount e q cnt off s1 s'"
proof -
  have "[fetchCalls s ..< fetchCalls s'] = [fetchCalls s ..< fetchCalls s1] @ [fetchCalls s1 ..< fetchCalls s']"
    using assms by (metis le_Suc_ex upt_add_eq_append)
  then show ?thesis by (simp add: successCount_def)
qed

lemma successCount_none:
  assumes "successCount e q cnt off s s1 = 0" "fetchCalls s \<le> k" "k < fetchCalls s1"
  shows "\<not> successful (request e q cnt off k)"
proof -
  from assms(1) have "filter (\<lambda>k. successful (request e q cnt off k)) [fetchCalls s ..< fetchCalls s1] = []"
    by (simp add: successCount_def)
  then have "\<forall>k \<in> set [fetchCalls s ..< fetchCalls s1]. \<not> successful (request e q cnt off k)"
    by (simp only: filter_empty_conv)
  with assms(2,3) show ?thesis by simp
qed

lemma successCount_le:
  assumes "fetchCalls s' \<le> fetchCalls s + 1"
  shows "successCount e q cnt off s s' \<le> 1"
proof -
  have "successCount e q cnt off s s' \<le> length [fetchCalls s ..< fetchCalls s']"
    unfolding successCount_def by (rule length_filter_le)
  also have "\<dots> \<le> 1" using assms by simp
  finally show ?thesis .
qed

text \<open>What a whole run of the loop does to the counters.\<close>

lemma performLoop_facts:
  assumes "performLoop e q cnt off a le s = (res, s')"
  shows "commits s' = commits s + successCount e q cnt off s s'
    \<and> fetchCalls s \<le> fetchCalls s'
    \<and> fetchCalls s' \<le> fetchCalls s + (maxAttempts - a)
    \<and> clockReads s \<le> clockReads s'
    \<and> requestCount s' = (incrementRateLimit ^^ successCount e q cnt off s s')
          (foldl (\<lambda>rc k. resetWindows (dateNow e k) rc) (requestCount s) [clockReads s ..< clockReads s'])
    \<and> successCount e q cnt off s s' \<le> 1
    \<and> (\<not> isl res \<longrightarrow> successCount e q cnt off s s' = 1)
    \<and> (successCount e q cnt off s s' = 1 \<longrightarrow>
          (\<exists>r data. request e q cnt off (fetchCalls s' - 1) = Resolves r \<and> jsonBody r = Inr data
             \<and> res = processBody data))
    \<and> (\<forall>k. fetchCalls s \<le> k \<and> Suc k < fetchCalls s' \<longrightarrow> \<not> successful (request e q cnt off k))"
  using assms
proof (induction "maxAttempts - a" arbitrary: a le s)
  case 0
  then have "\<not> a < maxAttempts" by simp
  with 0(2) have e: "s' = s" "isl res" by (auto simp: performLoop.simps)
  then have "successCount e q cnt off s s' = 0" by (simp add: successCount_same)
  with e show ?case by auto
next
  case (Suc n)
  then have lt: "a < maxAttempts" by simp
  obtain fl le1 s1 where I: "iteration e q cnt off (a + 1) le s = (fl, le1, s1)"
    by (cases "iteration e q cnt off (a + 1) le s") auto
  note IF = iteration_facts[OF I]
  have one: "[clockReads s ..< clockReads s1] = [clockReads s]" using IF(4) by simp
  have le1: "successCount e q cnt off s s1 \<le> 1" by (rule successCount_le[OF IF(3)])
  show ?case
  proof (cases "(\<exists>v. fl = Return v) \<or> (\<exists>err. fl = Throw err)")
    case True
    then have s': "s' = s1" and res: "(\<exists>v. fl = Return v \<and> res = Inr v) \<or> (\<exists>err. fl = Throw err \<and> res = Inl err)"
      using Suc.prems lt I by (auto simp: performLoop.simps)
    have A: "commits s' = commits s + successCount e q cnt off s s'" using IF(1) s' by simp
    have B: "fetchCalls s \<le> fetchCalls s'" "fetchCalls s' \<le> fetchCalls s + (maxAttempts - a)"
      using IF(2,3) s' lt by simp_all
    have C: "clockReads s \<le> clockReads s'" using IF(4) s' by simp
    have D: "requestCount s' = (incrementRateLimit ^^ successCount e q cnt off s s')
          (foldl (\<lambda>rc k. resetWindows (dateNow e k) rc) (requestCount s) [clockReads s ..< clockReads s'])"
      using IF(5) one s' by simp
    have E: "successCount e q cnt off s s' \<le> 1" using le1 s' by simp
    have F: "\<not> isl res \<longrightarrow> successCount e q cnt off s s' = 1" using res IF(6) s' by auto
    have G: "successCount e q cnt off s s' = 1 \<longrightarrow>
          (\<exists>r data. request e q cnt off (fetchCalls s' - 1) = Resolves r \<and> jsonBody r = Inr data
             \<and> res = processBody data)"
    proof
      assume "successCount e q cnt off s s' = 1"
      with IF(8) s' obtain r data where R: "request e q cnt off (fetchCalls s' - 1) = Resolves r"
        "jsonBody r = Inr data"
        and c: "(case processBody data of Inl err \<Rightarrow> fl = Throw err | Inr v \<Rightarrow> fl = Return v)"
        by auto
      from c res have "res = processBody data" by (cases "processBody data") auto
      with R show "\<exists>r data. request e q cnt off (fetchCalls s' - 1) = Resolves r \<and> jsonBody r = Inr data
             \<and> res = processBody data" by blast
    qed
    have H: "\<forall>k. fetchCalls s \<le> k \<and> Suc k < fetchCalls s' \<longrightarrow> \<not> successful (request e q cnt off k)"
      using IF(3) s' by auto
    from A B C D E F G H show ?thesis by blast
  next
    case False
    then have nr: "(\<forall>v. fl \<noteq> Return v) \<and> (\<forall>err. fl \<noteq> Throw err)" by blast
    with Suc.prems lt I have L: "performLoop e q cnt off (a + 1) le1 s1 = (res, s')"
      by (cases fl) (auto simp: performLoop.simps)
    have z: "successCount e q cnt off s s1 = 0" using IF(7) nr by blast
    have n: "n = maxAttempts - (a + 1)" using Suc.hyps(2) by simp
    note IH0 = Suc.hyps(1)[OF n L]
    from IH0 have IH:
      "commits s' = commits s1 + successCount e q cnt off s1 s'"
      "fetchCalls s1 \<le> fetchCalls s'"
      "fetchCalls s' \<le> fetchCalls s1 + (maxAttempts - (a + 1))"
      "clockReads s1 \<le> clockReads s'"
      "requestCount s' = (incrementRateLimit ^^ successCount e q cnt off s1 s')
          (foldl (\<lambda>rc k. resetWindows (dateNow e k) rc) (requestCount s1) [clockReads s1 ..< clockReads s'])"
      "successCount e q cnt off s1 s' \<le> 1"
      "\<not> isl res \<longrightarrow> successCount e q cnt off s1 s' = 1"
      "successCount e q cnt off s1 s' = 1 \<longrightarrow>
          (\<exists>r data. request e q cnt off (fetchCalls s' - 1) = Resolves r \<and> jsonBody r = Inr data
             \<and> res = processBody data)"
      "\<forall>k. fetchCalls s1 \<le> k \<and> Suc k < fetchCalls s' \<longrightarrow> \<not> successful (request e q cnt off k)"
      by blast+
    have sc: "successCount e q cnt off s s' = successCount e q cnt off s1 s'"
      using successCount_split[OF IF(2) IH(2), of e q cnt off] z by simp
    have A: "commits s' = commits s + successCount e q cnt off s s'" using IH(1) IF(1) z sc by simp
    have B: "fetchCalls s \<le> fetchCalls s'" "fetchCalls s' \<le> fetchCalls s + (maxAttempts - a)"
      using IF(2,3) IH(2,3) lt by simp_all
    have C: "clockReads s \<le> clockReads s'" using IF(4) IH(4) by simp
    have lt': "clockReads s < clockReads s'" using IF(4) IH(4) by simp
    have r1: "requestCount s1 = resetWindows (dateNow e (clockReads s)) (requestCount s)"
      using IF(5) z by simp
    have "[clockReads s ..< clockReads s'] = clockReads s # [clockReads s1 ..< clockReads s']"
      using lt' IF(4) by (simp add: upt_conv_Cons)
    then have fo: "foldl (\<lambda>rc k. resetWindows (dateNow e k) rc) (requestCount s) [clockReads s ..< clockReads s']
        = foldl (\<lambda>rc k. resetWindows (dateNow e k) rc) (requestCount s1) [clockReads s1 ..< clockReads s']"
      using r1 by simp
    have D: "requestCount s' = (incrementRateLimit ^^ successCount e q cnt off s s')
          (foldl (\<lambda>rc k. resetWindows (dateNow e k) rc) (requestCount s) [clockReads s ..< clockReads s'])"
      unfolding sc fo by (rule IH(5))
    have E: "successCount e q cnt off s s' \<le> 1" unfolding sc by (rule IH(6))
    have F: "\<not> isl res \<longrightarrow> successCount e q cnt off s s' = 1" unfolding sc by (rule IH(7))
    have G: "successCount e q cnt off s s' = 1 \<longrightarrow>
          (\<exists>r data. request e q cnt off (fetchCalls s' - 1) = Resolves r \<and> jsonBody r = Inr data
             \<and> res = processBody data)" unfolding sc by (rule IH(8))
    have H: "\<forall>k. fetchCalls s \<le> k \<and> Suc k < fetchCalls s' \<longrightarrow> \<not> successful (request e q cnt off k)"
    proof (intro allI impI)
      fix k assume k: "fetchCalls s \<le> k \<and> Suc k < fetchCalls s'"
      show "\<not> successful (request e q cnt off k)"
      proof (cases "k < fetchCalls s1")
        case True
        with k successCount_none[OF z] show ?thesis by blast
      next
        case False
        with k IH(9) show ?thesis by simp
      qed
    qed
    from A B C D E F G H show ?thesis by blast
  qed
qed

lemma performLoop_count:
  assumes "performLoop e q cnt off a le s = (res, s')"
  shows "fetchCalls s' \<le> fetchCalls s + (maxAttempts - a)"
  using performLoop_facts[OF assms] by blast

lemma allowed_canProceed:
  assumes "month rc < perMonth" "second rc < perSecond"
  shows "canProceed (fst (checkRateLimit now rc))"
proof -
  have "month (resetWindows now rc) < perMonth" "second (resetWindows now rc) < perSecond"
    using assms resetWindows_le[of now rc] by auto
  then show ?thesis by (simp add: checkRateLimit_def Let_def)
qed

lemma canProceed_allowed:
  assumes "canProceed (fst (checkRateLimit now rc))"
  shows "month (resetWindows now rc) < perMonth \<and> second (resetWindows now rc) < perSecond"
  using assms by (auto simp: checkRateLimit_def Let_def split: if_splits)

lemma gate_allowed:
  assumes "canProceed (fst (checkRateLimit (dateNow e (clockReads s)) (requestCount s)))"
  shows "\<exists>s1. rateLimitGate e a s = (FallThrough, s1) \<and> fetchCalls s1 = fetchCalls s
           \<and> commits s1 = commits s \<and> sleeps s1 = sleeps s
           \<and> month (requestCount s1) < perMonth \<and> second (requestCount s1) < perSecond"
  using assms canProceed_allowed[OF assms]
  by (simp add: rateLimitGate_def Let_def checkRateLimit_snd)

lemma try_catch_retryable:
  assumes R: "retryableFailure (request e q cnt off (fetchCalls s))"
    and T: "tryBody e q cnt off a le s = (t, le1, s1)"
  shows "fetchCalls s1 = fetchCalls s + 1 \<and> commits s1 = commits s \<and> requestCount s1 = requestCount s
       \<and> (a < maxAttempts \<longrightarrow> t = Continue \<or> (\<exists>err. t = Throw err \<and> isAbort err))
       \<and> (\<not> a < maxAttempts \<longrightarrow> (\<exists>err. t = Throw err \<and> err = exhaustedError (request e q cnt off (fetchCalls s))
              \<and> (isAbort err \<or> err_name err = ''Error'')))"
proof (cases "request e q cnt off (fetchCalls s)")
  case (Rejects err)
  then have F: "fetch e (fetchCalls s) q (min cnt 20) (max 0 (min off 9)) = Rejects err"
    by (simp add: request_def)
  from R Rejects have "isAbort err" by (simp add: retryableFailure_def)
  moreover from T F have "t = Throw err" "s1 = s\<lparr>fetchCalls := fetchCalls s + 1\<rparr>"
    by (simp_all add: tryBody_def Let_def)
  ultimately show ?thesis using Rejects by (simp add: exhaustedError_def)
next
  case (Resolves r)
  then have F: "fetch e (fetchCalls s) q (min cnt 20) (max 0 (min off 9)) = Resolves r"
    by (simp add: request_def)
  show ?thesis
  proof (cases "status r = 429")
    case True
    with T F show ?thesis using Resolves
      by (cases "a < maxAttempts")
         (auto simp: tryBody_def Let_def sleepJittered_def exhaustedError_def newError_def)
  next
    case n429: False
    show ?thesis
    proof (cases "200 \<le> status r \<and> status r \<le> 299")
      case True
      with R Resolves n429 obtain err where J: "jsonBody r = Inl err" "isAbort err"
        by (auto simp: retryableFailure_def split: sum.splits)
      with T F n429 True have "t = Throw err" "s1 = s\<lparr>fetchCalls := fetchCalls s + 1\<rparr>"
        by (simp_all add: tryBody_def Let_def)
      then show ?thesis using J Resolves n429 True by (simp add: exhaustedError_def)
    next
      case False
      with R Resolves n429 obtain err where J: "textBody r = Inl err" "isAbort err"
        by (auto simp: retryableFailure_def split: sum.splits)
      with T F n429 False have "t = Throw err" "s1 = s\<lparr>fetchCalls := fetchCalls s + 1\<rparr>"
        by (simp_all add: tryBody_def Let_def)
      then show ?thesis using J Resolves n429 False by (auto simp: exhaustedError_def)
    qed
  qed
qed

lemma iteration_retryable:
  assumes R: "retryableFailure (request e q cnt off (fetchCalls s))"
    and A: "canProceed (fst (checkRateLimit (dateNow e (clockReads s)) (requestCount s)))"
  shows "\<exists>fl le' s'. iteration e q cnt off a le s = (fl, le', s')
          \<and> fetchCalls s' = fetchCalls s + 1 \<and> commits s' = commits s
          \<and> month (requestCount s') < perMonth \<and> second (requestCount s') < perSecond
          \<and> (a < maxAttempts \<longrightarrow> fl = Continue)
          \<and> (\<not> a < maxAttempts \<longrightarrow> fl = Throw (exhaustedError (request e q cnt off (fetchCalls s))))"
proof -
  from gate_allowed[OF A, of a] obtain s1 where
    G: "rateLimitGate e a s = (FallThrough, s1)" and g: "fetchCalls s1 = fetchCalls s"
      "commits s1 = commits s" "month (requestCount s1) < perMonth" "second (requestCount s1) < perSecond"
    by blast
  obtain t le1 s2 where T: "tryBody e q cnt off a le s1 = (t, le1, s2)"
    by (cases "tryBody e q cnt off a le s1") auto
  from R g have R1: "retryableFailure (request e q cnt off (fetchCalls s1))" by simp
  note TC = try_catch_retryable[OF R1 T]
  show ?thesis
  proof (cases t)
    case (Throw err)
    then have I: "iteration e q cnt off a le s = catchBlock e a err le1 s2"
      using G T by (simp add: iteration_def)
    obtain fl le' s' where C: "catchBlock e a err le1 s2 = (fl, le', s')"
      by (cases "catchBlock e a err le1 s2") auto
    note CF = catch_facts[OF C]
    have "a < maxAttempts \<longrightarrow> fl = Continue"
      using TC Throw C by (auto simp: catchBlock_def Let_def isAbort_def split: if_splits)
    moreover have "\<not> a < maxAttempts \<longrightarrow> fl = Throw (exhaustedError (request e q cnt off (fetchCalls s)))"
      using TC Throw C g by (auto simp: catchBlock_def Let_def isAbort_def split: if_splits)
    ultimately show ?thesis using I C CF TC g by auto
  next
    case Continue
    then have "iteration e q cnt off a le s = (Continue, le1, s2)"
      using G T by (simp add: iteration_def)
    moreover have "a < maxAttempts" using TC Continue by auto
    ultimately show ?thesis using TC g by auto
  next
    case (Return v) with TC show ?thesis by (cases "a < maxAttempts") auto
  next
    case FallThrough with TC show ?thesis by (cases "a < maxAttempts") auto
  qed
qed

lemma performLoop_retryable:
  assumes "\<forall>k. retryableFailure (request e q cnt off k)"
    and "canProceed (fst (checkRateLimit (dateNow e (clockReads s)) (requestCount s)))"
    and "a < maxAttempts"
  shows "\<exists>s'. performLoop e q cnt off a le s
             = (Inl (exhaustedError (request e q cnt off (fetchCalls s + (maxAttempts - a) - 1))), s')
          \<and> fetchCalls s' = fetchCalls s + (maxAttempts - a) \<and> commits s' = commits s"
  using assms(2,3)
proof (induction "maxAttempts - a" arbitrary: a le s)
  case 0
  then show ?case by simp
next
  case (Suc n)
  from assms(1) have R: "retryableFailure (request e q cnt off (fetchCalls s))" by simp
  from iteration_retryable[OF R Suc.prems(1), of "a + 1" le] obtain fl le' s1 where
    I: "iteration e q cnt off (a + 1) le s = (fl, le', s1)"
    and f: "fetchCalls s1 = fetchCalls s + 1" "commits s1 = commits s"
    and al: "month (requestCount s1) < perMonth" "second (requestCount s1) < perSecond"
    and c: "a + 1 < maxAttempts \<longrightarrow> fl = Continue"
    and t: "\<not> a + 1 < maxAttempts \<longrightarrow> fl = Throw (exhaustedError (request e q cnt off (fetchCalls s)))"
    by blast
  show ?case
  proof (cases "a + 1 < maxAttempts")
    case True
    with c have fl: "fl = Continue" by simp
    have n: "n = maxAttempts - (a + 1)" using Suc.hyps(2) by simp
    from Suc.hyps(1)[OF n allowed_canProceed[OF al] True, of le'] obtain s' where
      L: "performLoop e q cnt off (a + 1) le' s1
             = (Inl (exhaustedError (request e q cnt off (fetchCalls s1 + (maxAttempts - (a + 1)) - 1))), s')"
      and l: "fetchCalls s' = fetchCalls s1 + (maxAttempts - (a + 1))" "commits s' = commits s1"
      by blast
    have "performLoop e q cnt off a le s = performLoop e q cnt off (a + 1) le' s1"
      using Suc.prems(2) I fl by (subst performLoop.simps) simp
    moreover have "fetchCalls s1 + (maxAttempts - (a + 1)) - 1 = fetchCalls s + (maxAttempts - a) - 1"
      using f True by simp
    ultimately show ?thesis using L l f True by auto
  next
    case False
    with t have fl: "fl = Throw (exhaustedError (request e q cnt off (fetchCalls s)))" by simp
    have "performLoop e q cnt off a le s = (Inl (exhaustedError (request e q cnt off (fetchCalls s))), s1)"
      using Suc.prems(2) I fl by (subst performLoop.simps) simp
    moreover have "maxAttempts - a = 1" using False Suc.prems(2) by simp
    ultimately show ?thesis using f by simp
  qed
qed








section \<open>Bounds on the jittered delays\<close>

lemma addJitter_bounds:
  assumes "0 \<le> rnd" "rnd < 1" "0 \<le> d" "d \<le> 10000"
  shows "0 \<le> addJitter rnd d \<and> addJitter rnd d \<le> 10500"
proof -
  define p where "p = real_of_int d * (rnd - 1 / 2)"
  define x where "x = real_of_int d + real_of_int d * jitterFactor * (rnd - 1 / 2)"
  have d0: "0 \<le> real_of_int d" and d1: "real_of_int d \<le> 10000" using assms(3,4) by simp_all
  have "real_of_int d * (rnd - 1 / 2) \<le> real_of_int d * (1 / 2)"
    using d0 assms(2) by (intro mult_left_mono) auto
  then have up: "p \<le> real_of_int d / 2" by (simp add: p_def)
  have "real_of_int d * (- (1 / 2)) \<le> real_of_int d * (rnd - 1 / 2)"
    using d0 assms(1) by (intro mult_left_mono) auto
  then have lo: "- (real_of_int d / 2) \<le> p" by (simp add: p_def)
  have xp: "x = real_of_int d + p / 10" by (simp add: x_def p_def jitterFactor_def)
  from up lo d0 d1 have "0 \<le> x + 1 / 2" "x + 1 / 2 < 10501" unfolding xp by linarith+
  then have "0 \<le> \<lfloor>x + 1 / 2\<rfloor>" "\<lfloor>x + 1 / 2\<rfloor> \<le> 10500" by (simp_all add: floor_less_iff le_floor_iff)
  then show ?thesis by (simp add: addJitter_def mathRound_def Let_def x_def)
qed

lemma sleepJittered_bounded:
  assumes "0 \<le> mathRandom e (randomCalls s)" "mathRandom e (randomCalls s) < 1" "0 \<le> d" "d \<le> 10000"
  shows "\<exists>x. sleeps (sleepJittered e (Some d) s) = sleeps s @ [x] \<and> boundedDelay x"
  using addJitter_bounds[OF assms] by (simp add: sleepJittered_def boundedDelay_def)

lemma sleepJittered_keeps:
  "requestCount (sleepJittered e d s) = requestCount s" "clockReads (sleepJittered e d s) = clockReads s"
  "fetchCalls (sleepJittered e d s) = fetchCalls s"
  by (simp_all add: sleepJittered_def)

lemma resetWindows_lastSecond:
  "lastSecondReset (resetWindows now rc) = now \<or> lastSecondReset (resetWindows now rc) = lastSecondReset rc"
  by (simp add: resetWindows_def Let_def)

lemma checkRateLimit_wait_bounds:
  assumes "lastSecondReset rc \<le> now"
  shows "0 \<le> waitTimeMs (fst (checkRateLimit now rc)) \<and> waitTimeMs (fst (checkRateLimit now rc)) \<le> 1000"
proof -
  have "lastSecondReset (resetWindows now rc) \<le> now"
    using assms resetWindows_lastSecond[of now rc] by auto
  then show ?thesis by (simp add: checkRateLimit_def Let_def)
qed

lemma gate_sleeps:
  assumes G: "rateLimitGate e a s = (fl, s1)"
    and mono: "\<forall>i j. i \<le> j \<longrightarrow> dateNow e i \<le> dateNow e j"
    and J: "clockAhead e s"
    and rnd: "\<forall>k. 0 \<le> mathRandom e k \<and> mathRandom e k < 1"
  shows "\<exists>ds. sleeps s1 = sleeps s @ ds \<and> (\<forall>d \<in> set ds. boundedDelay d)"
    and "clockAhead e s1"
proof -
  let ?now = "dateNow e (clockReads s)"
  let ?s1 = "s\<lparr>requestCount := snd (checkRateLimit ?now (requestCount s)), clockReads := clockReads s + 1\<rparr>"
  have le: "lastSecondReset (requestCount s) \<le> ?now" using J by (simp add: clockAhead_def)
  note W = checkRateLimit_wait_bounds[OF le]
  have cases: "s1 = ?s1 \<or> s1 = sleepJittered e (Some (waitTimeMs (fst (checkRateLimit ?now (requestCount s))))) ?s1"
    using G by (auto simp: rateLimitGate_def Let_def split: if_splits)
  have "0 \<le> mathRandom e (randomCalls ?s1)" "mathRandom e (randomCalls ?s1) < 1" using rnd by auto
  from sleepJittered_bounded[OF this, of "waitTimeMs (fst (checkRateLimit ?now (requestCount s)))"] W
  have S: "\<exists>x. sleeps (sleepJittered e (Some (waitTimeMs (fst (checkRateLimit ?now (requestCount s))))) ?s1)
             = sleeps s @ [x] \<and> boundedDelay x" by simp
  from cases S show "\<exists>ds. sleeps s1 = sleeps s @ ds \<and> (\<forall>d \<in> set ds. boundedDelay d)"
    by (elim disjE) (auto intro: exI[of _ "[]"])
  have L: "lastSecondReset (requestCount ?s1) \<le> ?now"
    using le resetWindows_lastSecond[of ?now "requestCount s"] by (auto simp: checkRateLimit_snd)
  have "clockAhead e ?s1"
    unfolding clockAhead_def
  proof (intro allI impI)
    fix k assume "clockReads ?s1 \<le> k"
    then have "clockReads s \<le> k" by simp
    with mono have "?now \<le> dateNow e k" by blast
    with L show "lastSecondReset (requestCount ?s1) \<le> dateNow e k" by linarith
  qed
  with cases show "clockAhead e s1" by (auto simp: clockAhead_def sleepJittered_keeps)
qed

lemma backoff_bounds: "0 \<le> backoff a" "a < maxAttempts \<Longrightarrow> backoff a \<le> 10000"
proof -
  show "0 \<le> backoff a" by (simp add: backoff_def initialDelayMs_def backoffMultiplier_def)
  assume "a < maxAttempts"
  then have "a = 0 \<or> a = 1 \<or> a = 2" by (auto simp: maxAttempts_def)
  then show "backoff a \<le> 10000"
    by (auto simp: backoff_def initialDelayMs_def backoffMultiplier_def)
qed

lemma retryDelayMs_bounds:
  assumes "modestRetryAfter (Resolves r)"
  shows "\<exists>d. retryDelayMs (retryAfter r) a = Some d \<and> 0 \<le> d \<and> d \<le> 10000"
  using assms backoff_bounds(1)[of a]
  by (auto simp: retryDelayMs_def modestRetryAfter_def maxDelayMs_def split: option.splits)

lemma tryBody_sleeps:
  assumes T: "tryBody e q cnt off a le s = (t, le1, s1)"
    and M: "modestRetryAfter (request e q cnt off (fetchCalls s))"
    and rnd: "\<forall>k. 0 \<le> mathRandom e k \<and> mathRandom e k < 1"
  shows "\<exists>ds. sleeps s1 = sleeps s @ ds \<and> (\<forall>d \<in> set ds. boundedDelay d)"
    and "lastSecondReset (requestCount s1) = lastSecondReset (requestCount s)"
    and "clockReads s1 = clockReads s"
proof -
  let ?s0 = "s\<lparr>fetchCalls := fetchCalls s + 1\<rparr>"
  have cases: "s1 = ?s0 \<or> s1 = commit ?s0
      \<or> (\<exists>r. request e q cnt off (fetchCalls s) = Resolves r \<and> s1 = sleepJittered e (retryDelayMs (retryAfter r) a) ?s0)"
    using T by (auto simp: tryBody_def Let_def request_def split: fetch_outcome.splits if_splits sum.splits)
  have R: "0 \<le> mathRandom e (randomCalls ?s0)" "mathRandom e (randomCalls ?s0) < 1" using rnd by auto
  { fix r assume r: "request e q cnt off (fetchCalls s) = Resolves r"
    with M retryDelayMs_bounds[of r a] obtain d where d: "retryDelayMs (retryAfter r) a = Some d" "0 \<le> d" "d \<le> 10000"
      by auto
    from sleepJittered_bounded[OF R d(2,3)] d(1)
    have "\<exists>x. sleeps (sleepJittered e (retryDelayMs (retryAfter r) a) ?s0) = sleeps s @ [x] \<and> boundedDelay x"
      by simp }
  note S = this
  from cases S show "\<exists>ds. sleeps s1 = sleeps s @ ds \<and> (\<forall>d \<in> set ds. boundedDelay d)"
    by (elim disjE exE conjE) (auto simp: commit_def intro: exI[of _ "[]"])
  from cases show "lastSecondReset (requestCount s1) = lastSecondReset (requestCount s)"
    by (auto simp: commit_def incrementRateLimit_def sleepJittered_keeps)
  from cases show "clockReads s1 = clockReads s"
    by (auto simp: commit_def sleepJittered_keeps)
qed

lemma catch_sleeps:
  assumes C: "catchBlock e a err le s = (fl, le', s1)"
    and rnd: "\<forall>k. 0 \<le> mathRandom e k \<and> mathRandom e k < 1"
  shows "\<exists>ds. sleeps s1 = sleeps s @ ds \<and> (\<forall>d \<in> set ds. boundedDelay d)"
    and "requestCount s1 = requestCount s" and "clockReads s1 = clockReads s"
proof -
  have cases: "s1 = s \<or> (a < maxAttempts \<and> s1 = sleepJittered e (Some (backoff a)) s)"
    using C by (auto simp: catchBlock_def Let_def split: if_splits)
  have R: "0 \<le> mathRandom e (randomCalls s)" "mathRandom e (randomCalls s) < 1" using rnd by auto
  { assume "a < maxAttempts"
    from sleepJittered_bounded[OF R backoff_bounds(1) backoff_bounds(2)[OF this]]
    have "\<exists>x. sleeps (sleepJittered e (Some (backoff a)) s) = sleeps s @ [x] \<and> boundedDelay x" . }
  with cases show "\<exists>ds. sleeps s1 = sleeps s @ ds \<and> (\<forall>d \<in> set ds. boundedDelay d)"
    by (elim disjE conjE) (auto intro: exI[of _ "[]"])
  from cases show "requestCount s1 = requestCount s" "clockReads s1 = clockReads s"
    by (auto simp: sleepJittered_keeps)
qed


lemma clockAhead_cong:
  assumes "lastSecondReset (requestCount a) = lastSecondReset (requestCount b)" "clockReads a = clockReads b"
  shows "clockAhead e a = clockAhead e b"
  using assms by (simp add: clockAhead_def)

lemma iteration_sleeps:
  assumes I: "iteration e q cnt off a le s = (fl, le', s')"
    and mono: "\<forall>i j. i \<le> j \<longrightarrow> dateNow e i \<le> dateNow e j"
    and J: "clockAhead e s"
    and rnd: "\<forall>k. 0 \<le> mathRandom e k \<and> mathRandom e k < 1"
    and M: "\<forall>k. modestRetryAfter (request e q cnt off k)"
  shows "(\<exists>ds. sleeps s' = sleeps s @ ds \<and> (\<forall>d \<in> set ds. boundedDelay d)) \<and> clockAhead e s'"
proof (cases "rateLimitGate e a s")
  case (Pair g s1)
  from gate_sleeps[OF Pair mono J rnd] obtain ds1 where
    G: "sleeps s1 = sleeps s @ ds1" "\<forall>d \<in> set ds1. boundedDelay d" "clockAhead e s1" by blast
  show ?thesis
  proof (cases "g = FallThrough")
    case False
    with Pair I have "s' = s1" by (auto simp: iteration_def split: flow.splits)
    with G show ?thesis by blast
  next
    case True
    obtain t le1 s2 where T: "tryBody e q cnt off a le s1 = (t, le1, s2)"
      by (cases "tryBody e q cnt off a le s1") auto
    from M have M1: "modestRetryAfter (request e q cnt off (fetchCalls s1))" by simp
    from tryBody_sleeps[OF T M1 rnd] obtain ds2 where
      TS: "sleeps s2 = sleeps s1 @ ds2" "\<forall>d \<in> set ds2. boundedDelay d"
        "lastSecondReset (requestCount s2) = lastSecondReset (requestCount s1)" "clockReads s2 = clockReads s1"
      by blast
    have J2: "clockAhead e s2" using clockAhead_cong[OF TS(3,4)] G(3) by simp
    have S2: "sleeps s2 = sleeps s @ (ds1 @ ds2)" "\<forall>d \<in> set (ds1 @ ds2). boundedDelay d"
      using G TS by auto
    show ?thesis
    proof (cases "\<exists>err. t = Throw err")
      case True
      then obtain err where "t = Throw err" by blast
      with \<open>g = FallThrough\<close> Pair T I have C: "catchBlock e a err le1 s2 = (fl, le', s')"
        by (simp add: iteration_def)
      from catch_sleeps[OF C rnd] obtain ds3 where
        CS: "sleeps s' = sleeps s2 @ ds3" "\<forall>d \<in> set ds3. boundedDelay d"
          "requestCount s' = requestCount s2" "clockReads s' = clockReads s2"
        by blast
      have "clockAhead e s'" using clockAhead_cong[of s' s2 e] CS J2 by simp
      moreover have "sleeps s' = sleeps s @ (ds1 @ ds2 @ ds3)" "\<forall>d \<in> set (ds1 @ ds2 @ ds3). boundedDelay d"
        using S2 CS by auto
      ultimately show ?thesis by blast
    next
      case False
      with \<open>g = FallThrough\<close> Pair T I have "s' = s2" by (cases t) (auto simp: iteration_def)
      with S2 J2 show ?thesis by blast
    qed
  qed
qed

lemma performLoop_sleeps:
  assumes "performLoop e q cnt off a le s = (res, s')"
    and mono: "\<forall>i j. i \<le> j \<longrightarrow> dateNow e i \<le> dateNow e j"
    and "clockAhead e s"
    and rnd: "\<forall>k. 0 \<le> mathRandom e k \<and> mathRandom e k < 1"
    and M: "\<forall>k. modestRetryAfter (request e q cnt off k)"
  shows "\<exists>ds. sleeps s' = sleeps s @ ds \<and> (\<forall>d \<in> set ds. boundedDelay d)"
  using assms(1,3)
proof (induction "maxAttempts - a" arbitrary: a le s)
  case 0
  then have "\<not> a < maxAttempts" by simp
  with 0(2) have "s' = s" by (auto simp: performLoop.simps)
  then show ?case by simp
next
  case (Suc n)
  then have lt: "a < maxAttempts" by simp
  obtain fl le1 s1 where I: "iteration e q cnt off (a + 1) le s = (fl, le1, s1)"
    by (cases "iteration e q cnt off (a + 1) le s") auto
  from iteration_sleeps[OF I mono Suc.prems(2) rnd M] obtain ds1 where
    IS: "sleeps s1 = sleeps s @ ds1" "\<forall>d \<in> set ds1. boundedDelay d" "clockAhead e s1" by blast
  show ?case
  proof (cases "(\<exists>v. fl = Return v) \<or> (\<exists>err. fl = Throw err)")
    case True
    with Suc.prems(1) lt I have "s' = s1" by (auto simp: performLoop.simps)
    with IS show ?thesis by blast
  next
    case False
    with Suc.prems(1) lt I have L: "performLoop e q cnt off (a + 1) le1 s1 = (res, s')"
      by (cases fl) (auto simp: performLoop.simps)
    have "n = maxAttempts - (a + 1)" using Suc.hyps(2) by simp
    from Suc.hyps(1)[OF this L IS(3)] obtain ds2 where
      "sleeps s' = sleeps s1 @ ds2" "\<forall>d \<in> set ds2. boundedDelay d" by blast
    with IS have "sleeps s' = sleeps s @ (ds1 @ ds2)" "\<forall>d \<in> set (ds1 @ ds2). boundedDelay d" by auto
    then show ?thesis by blast
  qed
qed

lemma parseInt_2: "parseInt ''2'' = Some 2"
  by (simp add: parseInt_def isWhiteSpace_def digitValue_def digitsValue_def Let_def)

lemma parseInt_60: "parseInt ''60'' = Some 60"
  by (simp add: parseInt_def isWhiteSpace_def digitValue_def digitsValue_def Let_def)


section \<open>Properties of cosineSimilarity\<close>

lemma fold_cosineStep:
  "fold (cosineStep a b) [0 ..< n] (d, x, y)
     = (d + (\<Sum>i = 0 ..< n. a ! i * b ! i), x + (\<Sum>i = 0 ..< n. a ! i * a ! i),
        y + (\<Sum>i = 0 ..< n. b ! i * b ! i))"
  by (induction n) (simp_all add: cosineStep_def)

lemma sum_squares_nth: "(\<Sum>i = 0 ..< length v. v ! i * v ! i) = (\<Sum>x\<leftarrow>v. x * (x::real))"
proof -
  have "(\<Sum>x\<leftarrow>v. x * x) = (\<Sum>i = 0 ..< length (map (\<lambda>x. x * x) v). map (\<lambda>x. x * x) v ! i)"
    by (rule sum_list_sum_nth)
  also have "\<dots> = (\<Sum>i = 0 ..< length v. v ! i * v ! i)" by (intro sum.cong) auto
  finally show ?thesis by simp
qed

lemma sum_products_nth:
  assumes "length a = length b"
  shows "(\<Sum>i = 0 ..< length a. a ! i * b ! i) = (\<Sum>(x, y)\<leftarrow>zip a b. x * (y::real))"
proof -
  have "(\<Sum>(x, y)\<leftarrow>zip a b. x * y)
      = (\<Sum>i = 0 ..< length (map (\<lambda>(x, y). x * y) (zip a b)). map (\<lambda>(x, y). x * y) (zip a b) ! i)"
    by (rule sum_list_sum_nth)
  also have "\<dots> = (\<Sum>i = 0 ..< length a. a ! i * b ! i)" using assms by (intro sum.cong) auto
  finally show ?thesis by simp
qed

lemma cosineSimilarity_equal_length:
  assumes "length a = length b"
  shows "cosineSimilarity a b
     = (if magnitude a = 0 \<or> magnitude b = 0 then Inr 0
        else Inr ((\<Sum>(x, y)\<leftarrow>zip a b. x * y) / (magnitude a * magnitude b)))"
proof -
  have "fold (cosineStep a b) [0 ..< length a] (0, 0, 0)
      = ((\<Sum>(x, y)\<leftarrow>zip a b. x * y), (\<Sum>x\<leftarrow>a. x * x), (\<Sum>x\<leftarrow>b. x * x))"
    using sum_products_nth[OF assms] sum_squares_nth[of a] sum_squares_nth[of b] assms
    by (simp add: fold_cosineStep)
  then show ?thesis using assms by (simp add: cosineSimilarity_def magnitude_def Let_def)
qed


section \<open>Properties of the semantic cache\<close>

lemma initialize_ok:
  assumes "initialize ce svc = (None, svc1)"
  shows "dbOpen svc1" "cacheTable svc1 = cacheTable svc"
  using assms by (auto simp: initialize_def logLine_def split: if_splits init_outcome.splits)

lemma initialize_open: "dbOpen svc \<Longrightarrow> initialize ce svc = (None, svc)"
  by (simp add: initialize_def)

lemma cleanupExpired_table:
  "cacheTable (cleanupExpired ce svc)
     = (if dbOpen svc \<and> deleteError ce = None
        then filter (\<lambda>entry. \<not> timestamp entry + ttl entry < clock ce) (cacheTable svc)
        else cacheTable svc)"
  by (simp add: cleanupExpired_def logLine_def Let_def split: option.splits)

lemma set_selectRecent:
  "set (selectRecent t rows) \<subseteq> {entry \<in> set rows. search_type entry = t}"
proof -
  have "set (selectRecent t rows) \<subseteq> set (sort_key (\<lambda>entry. - timestamp entry) (filter (\<lambda>entry. search_type entry = t) rows))"
    unfolding selectRecent_def by (rule set_take_subset)
  then show ?thesis by auto
qed

lemma selectRecent_filter:
  "selectRecent t (filter P rows) = take 100 (sort_key (\<lambda>entry. - timestamp entry) (filter P (filter (\<lambda>entry. search_type entry = t) rows)))"
  by (simp add: selectRecent_def conj_commute)

lemma scan_hit:
  assumes "scan qe entries best bs = Inr (Some hit)"
  shows "best = Some hit \<or> (\<exists>entry \<in> set entries. hit = hitOf entry (similarity hit))"
  using assms
proof (induction entries arbitrary: best bs)
  case Nil
  then show ?case by simp
next
  case (Cons entry rest)
  show ?case
  proof (cases "cosineSimilarity qe (query_embedding entry)")
    case (Inl err)
    with Cons.prems show ?thesis by simp
  next
    case (Inr sim)
    show ?thesis
    proof (cases "sim > bs \<and> sim \<ge> similarityThreshold")
      case True
      with Inr Cons.prems have "scan qe rest (Some (hitOf entry sim)) sim = Inr (Some hit)" by simp
      from Cons.IH[OF this] show ?thesis by (auto simp: hitOf_def)
    next
      case False
      with Inr Cons.prems have "scan qe rest best bs = Inr (Some hit)" by auto
      from Cons.IH[OF this] show ?thesis by auto
    qed
  qed
qed

lemma findSimilar_hit:
  assumes "findSimilar ce q t svc = (Inr (Some hit), svc')"
  shows "\<exists>svc1 qe. initialize ce svc = (None, svc1)
           \<and> scan qe (selectRecent t (cacheTable (cleanupExpired ce svc1))) None 0 = Inr (Some hit)"
proof (cases "initialize ce svc")
  case (Pair r svc1)
  show ?thesis
  proof (cases r)
    case (Some err)
    with Pair assms show ?thesis by (simp add: findSimilar_def)
  next
    case None
    note I = Pair[unfolded None]
    show ?thesis
    proof (cases "embed ce q")
      case (Inl err)
      with I assms show ?thesis by (simp add: findSimilar_def)
    next
      case (Inr qe)
      show ?thesis
      proof (cases "selectError ce")
        case (Some err)
        with I Inr assms show ?thesis by (simp add: findSimilar_def Let_def)
      next
        case None
        with I Inr assms have
          "scan qe (selectRecent t (cacheTable (cleanupExpired ce svc1))) None 0 = Inr (Some hit)"
          by (simp add: findSimilar_def Let_def split: sum.splits option.splits)
        with I show ?thesis by blast
      qed
    qed
  qed
qed

lemma findSimilar_hit_entry:
  assumes "findSimilar ce q t svc = (Inr (Some hit), svc')"
  shows "\<exists>entry \<in> set (cacheTable svc). search_type entry = t \<and> hit = hitOf entry (similarity hit)
           \<and> (deleteError ce = None \<longrightarrow> clock ce \<le> timestamp entry + ttl entry)"
proof -
  from findSimilar_hit[OF assms] obtain svc1 qe where
    I: "initialize ce svc = (None, svc1)"
    and S: "scan qe (selectRecent t (cacheTable (cleanupExpired ce svc1))) None 0 = Inr (Some hit)"
    by blast
  from scan_hit[OF S] obtain entry where
    E: "entry \<in> set (selectRecent t (cacheTable (cleanupExpired ce svc1)))" "hit = hitOf entry (similarity hit)"
    by auto
  from E(1) set_selectRecent have T: "entry \<in> set (cacheTable (cleanupExpired ce svc1))" "search_type entry = t"
    by blast+
  from T(1) initialize_ok[OF I] have F: "entry \<in> set (cacheTable svc)"
    "deleteError ce = None \<longrightarrow> clock ce \<le> timestamp entry + ttl entry"
    by (auto simp: cleanupExpired_table split: if_splits)
  show ?thesis
  proof (rule bexI[of _ entry])
    show "entry \<in> set (cacheTable svc)" by (rule F(1))
    show "search_type entry = t \<and> hit = hitOf entry (similarity hit)
           \<and> (deleteError ce = None \<longrightarrow> clock ce \<le> timestamp entry + ttl entry)"
      by (rule conjI[OF T(2) conjI[OF E(2) F(2)]])
  qed
qed

lemmas cache_defs = findSimilar_def store_def initialize_def cleanupExpired_def selectRecent_def
  logLine_def findFailed_def storeFailed_def hitOf_def similarityThreshold_def Let_def

lemma cosine_unit: "cosineSimilarity [1] [1] = Inr 1"
  by (simp add: cosineSimilarity_equal_length magnitude_def)


lemma findSimilar_fst_cong:
  assumes "dbOpen a" "dbOpen b"
    and "filter (\<lambda>entry. search_type entry = t) (cacheTable a)
           = filter (\<lambda>entry. search_type entry = t) (cacheTable b)"
  shows "fst (findSimilar ce q t a) = fst (findSimilar ce q t b)"
proof -
  have comm: "\<And>rows. filter (\<lambda>entry. search_type entry = t)
                     (filter (\<lambda>entry. \<not> timestamp entry + ttl entry < clock ce) rows)
                 = filter (\<lambda>entry. \<not> timestamp entry + ttl entry < clock ce)
                     (filter (\<lambda>entry. search_type entry = t) rows)"
    by (simp add: conj_commute)
  have sel: "selectRecent t (cacheTable (cleanupExpired ce a))
               = selectRecent t (cacheTable (cleanupExpired ce b))"
  proof (cases "deleteError ce")
    case None
    then have "cacheTable (cleanupExpired ce a)
                 = filter (\<lambda>entry. \<not> timestamp entry + ttl entry < clock ce) (cacheTable a)"
      "cacheTable (cleanupExpired ce b)
                 = filter (\<lambda>entry. \<not> timestamp entry + ttl entry < clock ce) (cacheTable b)"
      using assms(1,2) by (simp_all only: cleanupExpired_table simp_thms if_True)
    then show ?thesis by (simp only: selectRecent_def comm assms(3))
  next
    case (Some err)
    then have "cacheTable (cleanupExpired ce a) = cacheTable a"
      "cacheTable (cleanupExpired ce b) = cacheTable b"
      by (simp_all add: cleanupExpired_table)
    then show ?thesis by (simp only: selectRecent_def assms(3))
  qed
  show ?thesis
  proof (cases "embed ce q")
    case (Inl err)
    then show ?thesis using assms(1,2) by (simp add: findSimilar_def initialize_open)
  next
    case (Inr qe)
    show ?thesis
    proof (cases "selectError ce")
      case (Some err)
      with Inr show ?thesis using assms(1,2) by (simp add: findSimilar_def initialize_open Let_def)
    next
      case None
      with Inr show ?thesis using assms(1,2) sel
        by (simp add: findSimilar_def initialize_open Let_def split: sum.splits option.splits)
    qed
  qed
qed

lemma store_open:
  assumes "dbOpen svc"
  shows "dbOpen (snd (store ce q t res ttlSeconds svc))"
    and "fst (store ce q t res ttlSeconds svc) = Inr ()"
    and "t \<noteq> t2 \<Longrightarrow> filter (\<lambda>entry. search_type entry = t2) (cacheTable (snd (store ce q t res ttlSeconds svc)))
           = filter (\<lambda>entry. search_type entry = t2) (cacheTable svc)"
  using assms
  by (auto simp: store_def initialize_open storeFailed_def logLine_def split: sum.splits option.splits)

lemma store_swallows_after_open:
  assumes "dbOpen svc \<or> openDb ce = Opened"
  shows "fst (store ce q t res ttlSeconds svc) = Inr ()"
  using assms
  by (auto simp: store_def initialize_def storeFailed_def logLine_def split: sum.splits option.splits)


text \<open>
  The purge has its own \<^verbatim>\<open>try\<close>/\<^verbatim>\<open>catch\<close>: when its \<^verbatim>\<open>DELETE\<close> fails the
  lookup goes on over the unpurged table, and a row whose window has passed is returned.
  When the purge succeeds the same row is not returned.
\<close>

lemma expired_entry_returned_when_purge_fails:
  "fst (findSimilar purgeFails ''q'' ''web'' staleCache)
     = Inr (Some \<lparr>hit_results = ''R'', hit_timestamp = 0, hit_query = ''q'', similarity = 1\<rparr>)
   \<and> fst (findSimilar ceAt5 ''q'' ''web'' staleCache) = Inr None"
  by (simp add: cache_defs purgeFails_def ceAt5_def staleCache_def emptyCache_def cosine_unit)

section \<open>Properties of parseSearchResults\<close>

lemmas parse_defs = parseSearchResults_def resultBlocks_def parseBlock_def parseLine_def js_split_def
  splitFrom.simps trim_def isWhiteSpace_def truthy_def LF_def hasLine_def lastValue_def Let_def

lemma scenarioC_parsed:
  "parseSearchResults scenarioC
     = [\<lparr>title = ''A'', description = None, url = ''http://x.com''\<rparr>,
        \<lparr>title = ''B'', description = None, url = ''http://y.com''\<rparr>]"
  by (simp add: parse_defs scenarioC_def)

lemma labels_exclusive:
  "prefix ''Description: '' line \<Longrightarrow> \<not> prefix ''Title: '' line"
  "prefix ''URL: '' line \<Longrightarrow> \<not> prefix ''Title: '' line \<and> \<not> prefix ''Description: '' line"
  by (cases line; simp)+

lemma foldl_parseLine_title:
  "p_title (foldl parseLine r lines)
     = (case find (prefix ''Title: '') (rev lines) of
          Some line \<Rightarrow> Some (trim (drop 7 line)) | None \<Rightarrow> p_title r)"
  by (induction lines rule: rev_induct) (simp_all add: parseLine_def)

lemma foldl_parseLine_description:
  "p_description (foldl parseLine r lines)
     = (case find (prefix ''Description: '') (rev lines) of
          Some line \<Rightarrow> Some (trim (drop 13 line)) | None \<Rightarrow> p_description r)"
  by (induction lines rule: rev_induct) (auto simp: parseLine_def dest: labels_exclusive)

lemma foldl_parseLine_url:
  "p_url (foldl parseLine r lines)
     = (case find (prefix ''URL: '') (rev lines) of
          Some line \<Rightarrow> Some (trim (drop 5 line)) | None \<Rightarrow> p_url r)"
  by (induction lines rule: rev_induct) (auto simp: parseLine_def dest: labels_exclusive)

lemma parsed_fields:
  "p_title (foldl parseLine \<lparr>p_title = None, p_description = None, p_url = None\<rparr> (js_split [LF] block))
     = lastValue ''Title: '' block"
  "p_description (foldl parseLine \<lparr>p_title = None, p_description = None, p_url = None\<rparr> (js_split [LF] block))
     = lastValue ''Description: '' block"
  "p_url (foldl parseLine \<lparr>p_title = None, p_description = None, p_url = None\<rparr> (js_split [LF] block))
     = lastValue ''URL: '' block"
proof -
  have len: "length ''Title: '' = 7" "length ''Description: '' = 13" "length ''URL: '' = 5"
    by simp_all
  show "p_title (foldl parseLine \<lparr>p_title = None, p_description = None, p_url = None\<rparr> (js_split [LF] block))
     = lastValue ''Title: '' block"
    unfolding lastValue_def len foldl_parseLine_title by (simp split: option.splits)
  show "p_description (foldl parseLine \<lparr>p_title = None, p_description = None, p_url = None\<rparr> (js_split [LF] block))
     = lastValue ''Description: '' block"
    unfolding lastValue_def len foldl_parseLine_description by (simp split: option.splits)
  show "p_url (foldl parseLine \<lparr>p_title = None, p_description = None, p_url = None\<rparr> (js_split [LF] block))
     = lastValue ''URL: '' block"
    unfolding lastValue_def len foldl_parseLine_url by (simp split: option.splits)
qed

lemma parseBlock_lastValue:
  "parseBlock block
     = (if truthy (lastValue ''Title: '' block) \<and> truthy (lastValue ''URL: '' block)
        then [\<lparr>title = the (lastValue ''Title: '' block),
               description = lastValue ''Description: '' block,
               url = the (lastValue ''URL: '' block)\<rparr>]
        else [])"
  unfolding parseBlock_def Let_def parsed_fields by (rule refl)

lemma find_Some_member: "find P xs = Some x \<Longrightarrow> x \<in> set xs \<and> P x"
  by (induction xs) (auto split: if_splits)

lemma truthy_hasLine:
  assumes "truthy (lastValue label block)"
  shows "hasLine label block"
proof -
  from assms obtain line where "find (prefix label) (rev (js_split [LF] block)) = Some line"
    by (auto simp: truthy_def lastValue_def split: option.splits)
  from find_Some_member[OF this] have "line \<in> set (js_split [LF] block)" "prefix label line"
    by simp_all
  then show ?thesis by (auto simp: hasLine_def find_None_iff)
qed


section \<open>Main theorems\<close>

text \<open>
  Claim C1, as amended. \<^verbatim>\<open>checkRateLimit\<close> never raises a counter: it leaves it or
  resets it to 0. \<^verbatim>\<open>incrementRateLimit\<close> adds exactly one to both counters and
  changes nothing else. In every execution of \<^verbatim>\<open>performBraveSearch\<close> it runs once
  for each successful upstream response (status 2xx and a body that parses) among the
  requests sent, and for no other request: the counters at the end are the counters at
  the start, passed through the window resets of the checks made, plus one for each
  such response. There is at most one, it is the last request sent, every earlier
  (retried) request was not successful, and an execution that returns a result has one.
  The unit is taken before the parsed body is read, so the outcome of an execution that
  took it is whatever reading that body gives: the rendered text, or the
  \<^verbatim>\<open>TypeError\<close> of a body without the declared shape.
\<close>

theorem quota_consumed_only_by_success:
  assumes "performBraveSearch e q cnt off s = (res, s')"
  shows "(second (snd (checkRateLimit now rc)) = second rc \<or> second (snd (checkRateLimit now rc)) = 0)
       \<and> (month (snd (checkRateLimit now rc)) = month rc \<or> month (snd (checkRateLimit now rc)) = 0)
       \<and> incrementRateLimit rc = rc\<lparr>second := second rc + 1, month := month rc + 1\<rparr>
       \<and> commits s' = commits s + successCount e q cnt off s s'
       \<and> successCount e q cnt off s s' \<le> 1
       \<and> requestCount s' = (incrementRateLimit ^^ successCount e q cnt off s s')
            (foldl (\<lambda>rc k. resetWindows (dateNow e k) rc) (requestCount s)
               [clockReads s ..< clockReads s'])
       \<and> (\<forall>k. fetchCalls s \<le> k \<and> Suc k < fetchCalls s' \<longrightarrow> \<not> successful (request e q cnt off k))
       \<and> (\<not> isl res \<longrightarrow> successCount e q cnt off s s' = 1)
       \<and> (successCount e q cnt off s s' = 1 \<longrightarrow>
            (\<exists>r data. request e q cnt off (fetchCalls s' - 1) = Resolves r \<and> jsonBody r = Inr data
               \<and> res = processBody data))"
proof -
  have "performLoop e q cnt off 0 None s = (res, s')"
    using assms by (simp add: performBraveSearch_def)
  note L = performLoop_facts[OF this]
  have a: "second (snd (checkRateLimit now rc)) = second rc \<or> second (snd (checkRateLimit now rc)) = 0"
    "month (snd (checkRateLimit now rc)) = month rc \<or> month (snd (checkRateLimit now rc)) = 0"
    by (simp_all add: checkRateLimit_snd resetWindows_def Let_def)
  have b: "incrementRateLimit rc = rc\<lparr>second := second rc + 1, month := month rc + 1\<rparr>"
    by (simp add: incrementRateLimit_def)
  show ?thesis using L a b by blast
qed

theorem quota_consumed_only_by_success_witness:
  "performBraveSearch flakyThenOk ''q'' 10 0 idle
     = (Inr ''No results found for your query.'',
        \<lparr>requestCount = \<lparr>second = 1, month = 1, lastSecondReset = 1500, lastMonthReset = 0\<rparr>,
         clockReads = 2, randomCalls = 1, fetchCalls = 2, commits = 1, sleeps = [Some 1000]\<rparr>)
   \<and> successCount flakyThenOk ''q'' 10 0 idle
        \<lparr>requestCount = \<lparr>second = 1, month = 1, lastSecondReset = 1500, lastMonthReset = 0\<rparr>,
         clockReads = 2, randomCalls = 1, fetchCalls = 2, commits = 1, sleeps = [Some 1000]\<rparr> = 1
   \<and> (\<exists>r data. request flakyThenOk ''q'' 10 0 1 = Resolves r \<and> jsonBody r = Inr data
         \<and> Inr ''No results found for your query.'' = processBody data)"
proof -
  have run: "performBraveSearch flakyThenOk ''q'' 10 0 idle
     = (Inr ''No results found for your query.'',
        \<lparr>requestCount = \<lparr>second = 1, month = 1, lastSecondReset = 1500, lastMonthReset = 0\<rparr>,
         clockReads = 2, randomCalls = 1, fetchCalls = 2, commits = 1, sleeps = [Some 1000]\<rparr>)"
    by (simp add: run_defs flakyThenOk_def idle_def resp429_def respOk_def processBody_def)
  note T = quota_consumed_only_by_success[OF run]
  from T have one: "successCount flakyThenOk ''q'' 10 0 idle
        \<lparr>requestCount = \<lparr>second = 1, month = 1, lastSecondReset = 1500, lastMonthReset = 0\<rparr>,
         clockReads = 2, randomCalls = 1, fetchCalls = 2, commits = 1, sleeps = [Some 1000]\<rparr> = 1"
    by simp
  with T have "\<exists>r data. request flakyThenOk ''q'' 10 0 1 = Resolves r \<and> jsonBody r = Inr data
         \<and> Inr ''No results found for your query.'' = processBody data"
    by simp
  with run one show ?thesis by blast
qed

text \<open>
  Claim C1 as stated fails in its last part, that no failed attempt consumes quota:
  \<^verbatim>\<open>incrementRateLimit()\<close> runs before the parsed body is read. A 200 response whose
  body is the JSON value \<^verbatim>\<open>null\<close> raises both counters, and the attempt then fails
  with a \<^verbatim>\<open>TypeError\<close>.
\<close>

theorem commit_before_body_is_read:
  "performBraveSearch nullBody ''q'' 10 0 idle
     = (Inl (typeError (cannotReadNull ''web'')),
        \<lparr>requestCount = \<lparr>second = 1, month = 1, lastSecondReset = 0, lastMonthReset = 0\<rparr>,
         clockReads = 1, randomCalls = 0, fetchCalls = 1, commits = 1, sleeps = []\<rparr>)"
  by (simp add: run_defs nullBody_def idle_def respOk_def processBody_def typeError_def
        cannotReadNull_def)





text \<open>
  Claim C3. No execution of \<^verbatim>\<open>performBraveSearch\<close> sends more than
  \<^verbatim>\<open>maxAttempts\<close> = 3 requests. When every request fails with a retryable error
  (HTTP 429, or the abort of the timeout) and the rate limiter allows the first call
  (it then allows every later one, since no failure raises a counter), exactly 3 requests
  are sent and the function throws the error of the last attempt.
\<close>

theorem retry_bound:
  "maxAttempts = 3
   \<and> fetchCalls (snd (performBraveSearch e q cnt off s)) \<le> fetchCalls s + maxAttempts
   \<and> ((\<forall>k. retryableFailure (request e q cnt off k))
        \<and> canProceed (fst (checkRateLimit (dateNow e (clockReads s)) (requestCount s))) \<longrightarrow>
       fetchCalls (snd (performBraveSearch e q cnt off s)) = fetchCalls s + maxAttempts
       \<and> fst (performBraveSearch e q cnt off s)
           = Inl (exhaustedError (request e q cnt off (fetchCalls s + maxAttempts - 1)))
       \<and> commits (snd (performBraveSearch e q cnt off s)) = commits s)"
proof (intro conjI impI)
  show "maxAttempts = 3" by (simp add: maxAttempts_def)
  obtain res s' where R: "performLoop e q cnt off 0 None s = (res, s')"
    by (cases "performLoop e q cnt off 0 None s") auto
  from performLoop_count[OF R]
  show "fetchCalls (snd (performBraveSearch e q cnt off s)) \<le> fetchCalls s + maxAttempts"
    using R by (simp add: performBraveSearch_def)
  assume A: "(\<forall>k. retryableFailure (request e q cnt off k))
        \<and> canProceed (fst (checkRateLimit (dateNow e (clockReads s)) (requestCount s)))"
  have "0 < maxAttempts" by (simp add: maxAttempts_def)
  from performLoop_retryable[OF conjunct1[OF A] conjunct2[OF A] this, of None]
  obtain s2 where L: "performLoop e q cnt off 0 None s
             = (Inl (exhaustedError (request e q cnt off (fetchCalls s + (maxAttempts - 0) - 1))), s2)"
    "fetchCalls s2 = fetchCalls s + (maxAttempts - 0)" "commits s2 = commits s"
    by blast
  then show "fetchCalls (snd (performBraveSearch e q cnt off s)) = fetchCalls s + maxAttempts"
    "fst (performBraveSearch e q cnt off s)
           = Inl (exhaustedError (request e q cnt off (fetchCalls s + maxAttempts - 1)))"
    "commits (snd (performBraveSearch e q cnt off s)) = commits s"
    by (simp_all add: performBraveSearch_def)
qed

theorem retry_bound_witness:
  "(\<forall>k. retryableFailure (request aborting ''q'' 10 0 k))
   \<and> canProceed (fst (checkRateLimit (dateNow aborting (clockReads idle)) (requestCount idle)))
   \<and> fetchCalls (snd (performBraveSearch aborting ''q'' 10 0 idle)) = 3
   \<and> fst (performBraveSearch aborting ''q'' 10 0 idle) = Inl abortError"
proof -
  have h: "(\<forall>k. retryableFailure (request aborting ''q'' 10 0 k))
        \<and> canProceed (fst (checkRateLimit (dateNow aborting (clockReads idle)) (requestCount idle)))"
    by (simp add: retryableFailure_def request_def aborting_def isAbort_def abortError_def
          checkRateLimit_def resetWindows_def idle_def perMonth_def perSecond_def Let_def)
  have x: "exhaustedError (request aborting ''q'' 10 0 (fetchCalls idle + maxAttempts - 1)) = abortError"
    by (simp add: exhaustedError_def request_def aborting_def)
  from retry_bound[of aborting "''q''" 10 0 idle] h x show ?thesis
    by (simp add: idle_def)
qed


text \<open>
  Claim C5 says a wait for the per-second window does not consume a retry attempt. The
  loop increments \<^verbatim>\<open>attempt\<close> at its head, before the check, and the
  \<^verbatim>\<open>continue\<close> after the wait returns to that increment. With the window full on
  entry and an upstream that always answers 429, two requests are sent; without the
  wait, three.
\<close>

theorem rate_limit_wait_consumes_attempt:
  "fetchCalls (snd (performBraveSearch always429 ''q'' 10 0 justCalled)) = 2
   \<and> sleeps (snd (performBraveSearch always429 ''q'' 10 0 justCalled)) = [Some 500, Some 2000]
   \<and> fetchCalls (snd (performBraveSearch always429 ''q'' 10 0 idle)) = 3
   \<and> sleeps (snd (performBraveSearch always429 ''q'' 10 0 idle)) = [Some 1000, Some 2000]"
  by (simp add: run_defs always429_def idle_def justCalled_def resp429_def)


text \<open>
  Claim C9, as amended. In an execution whose clock does not run backwards, whose random
  numbers lie in [0, 1), and in which every \<^verbatim>\<open>Retry-After\<close> header is absent,
  empty or a number of seconds from 0 to 10, every delay the loop sleeps (the wait for
  the per-second window, the backoff after a 429 and the backoff after a timeout) is an
  integer from 0 to 10500, hence at most \<^verbatim>\<open>maxDelayMs * (1 + jitterFactor)\<close>.
\<close>

theorem jittered_delays_bounded:
  assumes "\<forall>i j. i \<le> j \<longrightarrow> dateNow e i \<le> dateNow e j"
    and "lastSecondReset (requestCount s) \<le> dateNow e (clockReads s)"
    and "\<forall>k. 0 \<le> mathRandom e k \<and> mathRandom e k < 1"
    and "\<forall>k. modestRetryAfter (request e q cnt off k)"
  shows "\<forall>d \<in> set (drop (length (sleeps s)) (sleeps (snd (performBraveSearch e q cnt off s)))).
           \<exists>v. d = Some v \<and> 0 \<le> v \<and> v \<le> 10500
                \<and> real_of_int v \<le> real_of_int maxDelayMs * (1 + jitterFactor)"
proof -
  obtain res s' where R: "performLoop e q cnt off 0 None s = (res, s')"
    by (cases "performLoop e q cnt off 0 None s") auto
  have J: "clockAhead e s"
    unfolding clockAhead_def
  proof (intro allI impI)
    fix k assume "clockReads s \<le> k"
    with assms(1) have "dateNow e (clockReads s) \<le> dateNow e k" by blast
    with assms(2) show "lastSecondReset (requestCount s) \<le> dateNow e k" by linarith
  qed
  from performLoop_sleeps[OF R assms(1) J assms(3,4)] obtain ds where
    D: "sleeps s' = sleeps s @ ds" "\<forall>d \<in> set ds. boundedDelay d" by blast
  have "drop (length (sleeps s)) (sleeps (snd (performBraveSearch e q cnt off s))) = ds"
    using R D by (simp add: performBraveSearch_def)
  moreover have "\<And>d. boundedDelay d \<Longrightarrow> \<exists>v. d = Some v \<and> 0 \<le> v \<and> v \<le> 10500
                \<and> real_of_int v \<le> real_of_int maxDelayMs * (1 + jitterFactor)"
    by (auto simp: boundedDelay_def maxDelayMs_def jitterFactor_def split: option.splits)
  ultimately show ?thesis using D(2) by auto
qed

theorem jittered_delays_bounded_witness:
  "lastSecondReset (requestCount idle) \<le> dateNow mixedFailures (clockReads idle)
   \<and> (\<forall>k. 0 \<le> mathRandom mixedFailures k \<and> mathRandom mixedFailures k < 1)
   \<and> (\<forall>k. modestRetryAfter (request mixedFailures ''q'' 10 0 k))
   \<and> sleeps (snd (performBraveSearch mixedFailures ''q'' 10 0 idle)) = [Some 2050, Some 2050]
   \<and> (\<exists>v. Some 2050 = Some v \<and> 0 \<le> v \<and> v \<le> 10500
            \<and> real_of_int v \<le> real_of_int maxDelayMs * (1 + jitterFactor))"
proof -
  have h1: "\<forall>i j. i \<le> j \<longrightarrow> dateNow mixedFailures i \<le> dateNow mixedFailures j"
    by (simp add: mixedFailures_def)
  have h2: "lastSecondReset (requestCount idle) \<le> dateNow mixedFailures (clockReads idle)"
    by (simp add: mixedFailures_def idle_def)
  have h3: "\<forall>k. 0 \<le> mathRandom mixedFailures k \<and> mathRandom mixedFailures k < 1"
    by (simp add: mixedFailures_def)
  have h4: "\<forall>k. modestRetryAfter (request mixedFailures ''q'' 10 0 k)"
    by (simp add: modestRetryAfter_def request_def mixedFailures_def resp429_def respOk_def parseInt_2)
  have run: "sleeps (snd (performBraveSearch mixedFailures ''q'' 10 0 idle)) = [Some 2050, Some 2050]"
    by (simp add: run_defs mixedFailures_def idle_def resp429_def respOk_def abortError_def parseInt_2)
  have "sleeps idle = []" by (simp add: idle_def)
  then have "Some 2050 \<in> set (drop (length (sleeps idle)) (sleeps (snd (performBraveSearch mixedFailures ''q'' 10 0 idle))))"
    by (simp add: run)
  with jittered_delays_bounded[OF h1 h2 h3 h4] have
    "\<exists>v. Some 2050 = Some v \<and> 0 \<le> v \<and> v \<le> 10500
         \<and> real_of_int v \<le> real_of_int maxDelayMs * (1 + jitterFactor)" by blast
  with h2 h3 h4 run show ?thesis by blast
qed

text \<open>
  Claim C9 as stated fails: a provider hint is used without the cap. After a 429 with
  \<^verbatim>\<open>Retry-After: 60\<close> the loop sleeps 60000 ms.
\<close>

theorem retry_after_exceeds_cap:
  "sleeps (snd (performBraveSearch hinted60 ''q'' 10 0 idle)) = [Some 60000]
   \<and> \<not> real_of_int 60000 \<le> real_of_int maxDelayMs * (1 + jitterFactor)"
  by (simp add: run_defs hinted60_def idle_def resp429_def respOk_def parseInt_60)


text \<open>
  Claim C10. \<^verbatim>\<open>cosineSimilarity\<close> throws the dimension-mismatch error exactly when
  the two lengths differ. On vectors of equal length it returns a number: 0 when either
  magnitude is 0, and the dot product over the product of the magnitudes otherwise.
\<close>

theorem cosineSimilarity_defined_on_equal_dimensions:
  "(length vecA \<noteq> length vecB \<longrightarrow>
      cosineSimilarity vecA vecB
        = Inl (newError (''Vector dimension mismatch: '' @ showNat (length vecA)
                 @ '' vs '' @ showNat (length vecB))))
   \<and> (length vecA = length vecB \<longrightarrow>
        (\<exists>x. cosineSimilarity vecA vecB = Inr x)
        \<and> (magnitude vecA = 0 \<or> magnitude vecB = 0 \<longrightarrow> cosineSimilarity vecA vecB = Inr 0)
        \<and> (magnitude vecA \<noteq> 0 \<and> magnitude vecB \<noteq> 0 \<longrightarrow>
             cosineSimilarity vecA vecB
               = Inr ((\<Sum>(x, y)\<leftarrow>zip vecA vecB. x * y) / (magnitude vecA * magnitude vecB))))"
  using cosineSimilarity_equal_length[of vecA vecB]
  by (auto simp: cosineSimilarity_def)

theorem cosineSimilarity_defined_on_equal_dimensions_witness:
  "cosineSimilarity [1] [1, 2] = Inl (newError ''Vector dimension mismatch: 1 vs 2'')
   \<and> magnitude [0, 0] = 0
   \<and> cosineSimilarity [1, 0] [0, 0] = Inr 0
   \<and> magnitude [1, 0] = 1
   \<and> cosineSimilarity [1, 0] [1, 0] = Inr 1"
proof -
  have m: "magnitude [0, 0] = 0" "magnitude [1, 0] = 1" by (simp_all add: magnitude_def)
  have s: "showNat (length [1::real]) = ''1''" "showNat (length [1::real, 2]) = ''2''"
    by (simp_all add: showNat.simps)
  from cosineSimilarity_defined_on_equal_dimensions[of "[1]" "[1, 2]"] s
  have a: "cosineSimilarity [1] [1, 2] = Inl (newError ''Vector dimension mismatch: 1 vs 2'')"
    by simp
  from cosineSimilarity_defined_on_equal_dimensions[of "[1, 0]" "[0, 0]"] m
  have b: "cosineSimilarity [1, 0] [0, 0] = Inr 0" by simp
  from cosineSimilarity_defined_on_equal_dimensions[of "[1, 0]" "[1, 0]"] m
  have c: "cosineSimilarity [1, 0] [1, 0] = Inr 1" by simp
  from a b c m show ?thesis by simp
qed









text \<open>
  Claim C6. Search types are isolated partitions. Storing an entry under one search type
  never changes what a lookup under a different search type returns, whatever the
  embeddings are; and every hit of a lookup is built from a row of the search type that
  was asked for.
\<close>

theorem partition_isolation:
  "(t1 \<noteq> t2 \<and> dbOpen svc \<longrightarrow>
      fst (findSimilar ce2 q2 t2 (snd (store ce1 q1 t1 res ttlSeconds svc)))
        = fst (findSimilar ce2 q2 t2 svc))
   \<and> (findSimilar ce q t svc = (Inr (Some hit), svc') \<longrightarrow>
        (\<exists>entry \<in> set (cacheTable svc). search_type entry = t \<and> hit = hitOf entry (similarity hit)))"
proof (intro conjI impI)
  assume A: "t1 \<noteq> t2 \<and> dbOpen svc"
  then have o: "dbOpen svc" and ne: "t1 \<noteq> t2" by simp_all
  show "fst (findSimilar ce2 q2 t2 (snd (store ce1 q1 t1 res ttlSeconds svc)))
        = fst (findSimilar ce2 q2 t2 svc)"
    by (rule findSimilar_fst_cong[OF store_open(1)[OF o] o store_open(3)[OF o ne]])
next
  assume "findSimilar ce q t svc = (Inr (Some hit), svc')"
  from findSimilar_hit_entry[OF this]
  show "\<exists>entry \<in> set (cacheTable svc). search_type entry = t \<and> hit = hitOf entry (similarity hit)"
    by blast
qed

theorem partition_isolation_witness:
  "''web'' \<noteq> ''code'' \<and> dbOpen emptyCache
   \<and> fst (findSimilar ceAt5 ''q'' ''code'' (snd (store ceAt5 ''q'' ''web'' ''R'' 3600 emptyCache))) = Inr None
   \<and> fst (findSimilar ceAt5 ''q'' ''web'' (snd (store ceAt5 ''q'' ''web'' ''R'' 3600 emptyCache)))
       = Inr (Some \<lparr>hit_results = ''R'', hit_timestamp = 5, hit_query = ''q'', similarity = 1\<rparr>)
   \<and> (\<exists>entry. entry \<in> set (cacheTable (snd (store ceAt5 ''q'' ''web'' ''R'' 3600 emptyCache)))
         \<and> search_type entry = ''web'')"
proof -
  have h: "''web'' \<noteq> ''code'' \<and> dbOpen emptyCache" by (simp add: emptyCache_def)
  have e: "fst (findSimilar ceAt5 ''q'' ''code'' emptyCache) = Inr None"
    by (simp add: cache_defs ceAt5_def emptyCache_def)
  have f: "fst (findSimilar ceAt5 ''q'' ''web'' (snd (store ceAt5 ''q'' ''web'' ''R'' 3600 emptyCache)))
     = Inr (Some \<lparr>hit_results = ''R'', hit_timestamp = 5, hit_query = ''q'', similarity = 1\<rparr>)"
    by (simp add: cache_defs ceAt5_def emptyCache_def cosine_unit)
  then have run: "findSimilar ceAt5 ''q'' ''web'' (snd (store ceAt5 ''q'' ''web'' ''R'' 3600 emptyCache))
     = (Inr (Some \<lparr>hit_results = ''R'', hit_timestamp = 5, hit_query = ''q'', similarity = 1\<rparr>),
        snd (findSimilar ceAt5 ''q'' ''web'' (snd (store ceAt5 ''q'' ''web'' ''R'' 3600 emptyCache))))"
    by (simp add: prod_eq_iff)
  from partition_isolation[where ?t1.0 = "''web''" and ?t2.0 = "''code''" and svc = emptyCache
      and ?ce1.0 = ceAt5 and ?ce2.0 = ceAt5 and ?q1.0 = "''q''" and ?q2.0 = "''q''" and res = "''R''"
      and ttlSeconds = 3600] h e
  have a: "fst (findSimilar ceAt5 ''q'' ''code'' (snd (store ceAt5 ''q'' ''web'' ''R'' 3600 emptyCache))) = Inr None"
    by simp
  from partition_isolation[where ce = ceAt5 and q = "''q''" and t = "''web''"
      and svc = "snd (store ceAt5 ''q'' ''web'' ''R'' 3600 emptyCache)"
      and hit = "\<lparr>hit_results = ''R'', hit_timestamp = 5, hit_query = ''q'', similarity = 1\<rparr>"
      and svc' = "snd (findSimilar ceAt5 ''q'' ''web'' (snd (store ceAt5 ''q'' ''web'' ''R'' 3600 emptyCache)))"] run
  have b: "\<exists>entry. entry \<in> set (cacheTable (snd (store ceAt5 ''q'' ''web'' ''R'' 3600 emptyCache)))
         \<and> search_type entry = ''web''"
    by blast
  from h a f b show ?thesis by blast
qed


text \<open>
  Claim C8 says \<^verbatim>\<open>store\<close> never propagates an internal failure. Its lazy
  \<^verbatim>\<open>await this.initialize()\<close> stands before the \<^verbatim>\<open>try\<close> block, and
  \<^verbatim>\<open>initialize\<close> rethrows: with the database not yet open and an open that fails,
  \<^verbatim>\<open>store\<close> rejects with the error of the database.
\<close>

theorem store_propagates_initialization_failure:
  "store (ceAt5\<lparr>openDb := OpenFails cantOpen\<rparr>) ''q'' ''web'' ''R'' 3600 (emptyCache\<lparr>dbOpen := False\<rparr>)
     = (Inl cantOpen,
        \<lparr>dbOpen = False, cacheTable = [], lastRowId = 0,
         logged = [(''error'', ''[Cache] Failed to initialize'')]\<rparr>)"
  by (simp add: cache_defs ceAt5_def emptyCache_def)


text \<open>
  Claim C7, as amended. The parser's output is the concatenation, over the non-blank
  blocks of the raw text, of what each block emits. A block emits one item exactly when
  the text after the label on its last \<^verbatim>\<open>Title: \<close> line and on its last
  \<^verbatim>\<open>URL: \<close> line is not blank, and nothing otherwise; so a block that emits has
  both lines. The raw text of Scenario C parses to the two items A and B.
\<close>

theorem parser_emits_iff_title_and_url_nonblank:
  "parseSearchResults rawText = concat (map parseBlock (resultBlocks rawText))
   \<and> parseBlock block
       = (if truthy (lastValue ''Title: '' block) \<and> truthy (lastValue ''URL: '' block)
          then [\<lparr>title = the (lastValue ''Title: '' block),
                 description = lastValue ''Description: '' block,
                 url = the (lastValue ''URL: '' block)\<rparr>]
          else [])
   \<and> (parseBlock block \<noteq> [] \<longrightarrow> hasLine ''Title: '' block \<and> hasLine ''URL: '' block)
   \<and> parseSearchResults scenarioC
       = [\<lparr>title = ''A'', description = None, url = ''http://x.com''\<rparr>,
          \<lparr>title = ''B'', description = None, url = ''http://y.com''\<rparr>]"
proof (intro conjI impI)
  show "parseSearchResults rawText = concat (map parseBlock (resultBlocks rawText))"
    by (simp add: parseSearchResults_def)
  show "parseBlock block
       = (if truthy (lastValue ''Title: '' block) \<and> truthy (lastValue ''URL: '' block)
          then [\<lparr>title = the (lastValue ''Title: '' block),
                 description = lastValue ''Description: '' block,
                 url = the (lastValue ''URL: '' block)\<rparr>]
          else [])"
    by (rule parseBlock_lastValue)
  show "parseSearchResults scenarioC
       = [\<lparr>title = ''A'', description = None, url = ''http://x.com''\<rparr>,
          \<lparr>title = ''B'', description = None, url = ''http://y.com''\<rparr>]"
    by (rule scenarioC_parsed)
next
  assume "parseBlock block \<noteq> []"
  then have "truthy (lastValue ''Title: '' block)" "truthy (lastValue ''URL: '' block)"
    by (simp_all add: parseBlock_lastValue split: if_splits)
  then show "hasLine ''Title: '' block" "hasLine ''URL: '' block"
    by (simp_all add: truthy_hasLine)
qed

theorem parser_emits_iff_title_and_url_nonblank_witness:
  "lastValue ''Title: '' blockA = Some ''A'' \<and> lastValue ''URL: '' blockA = Some ''http://x.com''
   \<and> parseBlock blockA = [\<lparr>title = ''A'', description = None, url = ''http://x.com''\<rparr>]
   \<and> parseBlock blockA \<noteq> []
   \<and> hasLine ''Title: '' blockA \<and> hasLine ''URL: '' blockA
   \<and> lastValue ''Title: '' blankTitle = Some []
   \<and> parseBlock blankTitle = []"
proof -
  have v: "lastValue ''Title: '' blockA = Some ''A''" "lastValue ''URL: '' blockA = Some ''http://x.com''"
    "lastValue ''Description: '' blockA = None" "lastValue ''Title: '' blankTitle = Some []"
    by (simp_all add: parse_defs blockA_def blankTitle_def)
  note T = parser_emits_iff_title_and_url_nonblank[of "[]" blockA]
  from T v have a: "parseBlock blockA = [\<lparr>title = ''A'', description = None, url = ''http://x.com''\<rparr>]"
    by (simp add: truthy_def)
  with T have b: "hasLine ''Title: '' blockA \<and> hasLine ''URL: '' blockA" by simp
  from parser_emits_iff_title_and_url_nonblank[of "[]" blankTitle] v
  have c: "parseBlock blankTitle = []" by (simp add: truthy_def)
  from v a b c show ?thesis by simp
qed


text \<open>
  Claim C7 as stated fails in one direction: a block can hold both a \<^verbatim>\<open>Title: \<close>
  line and a \<^verbatim>\<open>URL: \<close> line and still be dropped, because the test
  \<^verbatim>\<open>result.title && result.url\<close> is false for an empty string.
\<close>

theorem blank_title_block_dropped:
  "hasLine ''Title: '' blankTitle \<and> hasLine ''URL: '' blankTitle
   \<and> resultBlocks blankTitle = [blankTitle] \<and> parseSearchResults blankTitle = []"
  by (simp add: parse_defs blankTitle_def)



end
